theory Spec2Isabelle
  imports Complex_Main
begin

section \<open>Base layers of gemma3n: Einsum, reduce\_precision, RMSNorm\<close>

text \<open>
  The source is \<^verbatim>\<open>gemma/gm/nn/gemma3n/_layers.py\<close>. It is written against the
  array library: every arithmetic step is a library call on arrays. The embedding
  keeps the code's own control flow, shapes, element types and parameter handling as HOL
  definitions, and takes the library's element arithmetic as a parameter (the record
  \<open>engine\<close>), so that a theorem holds for every arithmetic, the floating-point one
  included. Where a property needs a law of the arithmetic, the law is a stated
  hypothesis.
\<close>

subsection \<open>Arrays\<close>

text \<open>The element types an array can declare.\<close>

datatype dtype =
    Bool | Int32 | Int64
  | Float16 | BFloat16 | Float32 | Float64
  | Complex64 | Complex128

fun is_floating :: "dtype \<Rightarrow> bool" where
  "is_floating Float16 = True"
| "is_floating BFloat16 = True"
| "is_floating Float32 = True"
| "is_floating Float64 = True"
| "is_floating _ = False"

text \<open>
  An array: its declared element type, its shape and its elements in row-major order.
  Arrays are immutable values; an operation returns a new array.
\<close>

record 'a tensor =
  dtype :: dtype
  shape :: "nat list"
  data :: "'a list"

definition wf_tensor :: "'a tensor \<Rightarrow> bool" where
  "wf_tensor x = (length (data x) = prod_list (shape x))"

text \<open>The exceptions the calls of this file can raise.\<close>

datatype error =
    NotInexact            \<comment> \<open>\<^verbatim>\<open>jnp.finfo\<close> on a type that is neither floating nor complex\<close>
  | NotFloating           \<comment> \<open>\<^verbatim>\<open>lax.reduce_precision\<close> on a non-floating operand\<close>
  | AxisOutOfBounds       \<comment> \<open>a reduction along axis -1 of a rank-0 array\<close>
  | IndexError            \<comment> \<open>\<^verbatim>\<open>x.shape[-1]\<close> on the empty tuple\<close>
  | IncompatibleShapes    \<comment> \<open>operands that do not broadcast\<close>
  | ParamShapeMismatch    \<comment> \<open>a stored parameter whose shape is not the declared one\<close>
  | ParamNotFound         \<comment> \<open>a parameter asked for outside initialisation that is not stored\<close>
  | EinsumError           \<comment> \<open>the contraction rejects its equation or operands\<close>

subsection \<open>The array library, as a parameter\<close>

text \<open>
  What the library computes on elements, and which element type a result declares.
  \<open>el_lit\<close> turns a Python float scalar into an element of the array it meets.
  \<open>el_square\<close> is given the element type it squares in: an integer square wraps
  around, a floating one does not.
\<close>

record 'a engine =
  el_lit :: "real \<Rightarrow> 'a"
  el_add :: "'a \<Rightarrow> 'a \<Rightarrow> 'a"
  el_mul :: "'a \<Rightarrow> 'a \<Rightarrow> 'a"
  el_square :: "dtype \<Rightarrow> 'a \<Rightarrow> 'a"
  el_mean :: "'a list \<Rightarrow> 'a"
  el_rsqrt :: "'a \<Rightarrow> 'a"
  el_reduce_precision :: "nat \<Rightarrow> nat \<Rightarrow> 'a \<Rightarrow> 'a"
  el_le :: "'a \<Rightarrow> 'a \<Rightarrow> bool"
  el_is_nan :: "'a \<Rightarrow> bool"
  el_is_finite :: "'a \<Rightarrow> bool"
  el_is_zero :: "'a \<Rightarrow> bool"
  promote_types :: "dtype \<Rightarrow> dtype \<Rightarrow> dtype"
  weak_float_type :: "dtype \<Rightarrow> dtype"
  mean_type :: "dtype \<Rightarrow> dtype"
  square_type :: "dtype \<Rightarrow> dtype"
  default_float :: dtype
  jnp_einsum :: "string \<Rightarrow> 'a tensor \<Rightarrow> 'a tensor \<Rightarrow> error + 'a tensor"

subsection \<open>Elementwise operations and reductions\<close>

definition map_tensor :: "('a \<Rightarrow> 'a) \<Rightarrow> dtype \<Rightarrow> 'a tensor \<Rightarrow> 'a tensor" where
  "map_tensor f dt x = \<lparr>dtype = dt, shape = shape x, data = map f (data x)\<rparr>"

text \<open>
  \<^verbatim>\<open>jnp.square(x)\<close>: the square in the array's numeric type (a bool array is squared
  as integers).
\<close>

definition jnp_square :: "'a engine \<Rightarrow> 'a tensor \<Rightarrow> 'a tensor" where
  "jnp_square E x = map_tensor (el_square E (dtype x)) (square_type E (dtype x)) x"

text \<open>\<^verbatim>\<open>jax.lax.rsqrt(x)\<close>\<close>

definition lax_rsqrt :: "'a engine \<Rightarrow> 'a tensor \<Rightarrow> 'a tensor" where
  "lax_rsqrt E x = map_tensor (el_rsqrt E) (dtype x) x"

text \<open>\<^verbatim>\<open>x + c\<close>, \<^verbatim>\<open>c + x\<close> and \<^verbatim>\<open>x * c\<close> for a Python float \<open>c\<close>.\<close>

definition add_scalar :: "'a engine \<Rightarrow> 'a tensor \<Rightarrow> real \<Rightarrow> 'a tensor" where
  "add_scalar E x c = map_tensor (\<lambda>v. el_add E v (el_lit E c)) (weak_float_type E (dtype x)) x"

definition scalar_add :: "'a engine \<Rightarrow> real \<Rightarrow> 'a tensor \<Rightarrow> 'a tensor" where
  "scalar_add E c x = map_tensor (\<lambda>v. el_add E (el_lit E c) v) (weak_float_type E (dtype x)) x"

definition mul_scalar :: "'a engine \<Rightarrow> 'a tensor \<Rightarrow> real \<Rightarrow> 'a tensor" where
  "mul_scalar E x c = map_tensor (\<lambda>v. el_mul E v (el_lit E c)) (weak_float_type E (dtype x)) x"

text \<open>The \<open>i\<close>-th block of \<open>n\<close> consecutive elements.\<close>

definition chunk :: "nat \<Rightarrow> nat \<Rightarrow> 'a list \<Rightarrow> 'a list" where
  "chunk n i xs = take n (drop (i * n) xs)"

text \<open>
  \<^verbatim>\<open>jnp.mean(x, axis=-1, keepdims=True)\<close>: one mean for each block along the last
  axis, the axis kept with size 1. A rank-0 array has no axis -1.
\<close>

definition jnp_mean_last :: "'a engine \<Rightarrow> 'a tensor \<Rightarrow> error + 'a tensor" where
  "jnp_mean_last E x =
     (if shape x = [] then Inl AxisOutOfBounds
      else Inr \<lparr>dtype = mean_type E (dtype x),
                shape = butlast (shape x) @ [1],
                data = map (\<lambda>i. el_mean E (chunk (last (shape x)) i (data x)))
                           [0 ..< prod_list (butlast (shape x))]\<rparr>)"

subsection \<open>Broadcasting\<close>

text \<open>
  Two shapes broadcast when, aligned at the last axis and the shorter one padded with
  ones in front, the sizes agree or one of them is 1 on every axis.
\<close>

definition pad_shape :: "nat \<Rightarrow> nat list \<Rightarrow> nat list" where
  "pad_shape n s = replicate (n - length s) 1 @ s"

fun bc_dims :: "nat list \<Rightarrow> nat list \<Rightarrow> nat list option" where
  "bc_dims [] [] = Some []"
| "bc_dims (a # s) (b # t) =
     (if a = b \<or> b = 1 then map_option ((#) a) (bc_dims s t)
      else if a = 1 then map_option ((#) b) (bc_dims s t)
      else None)"
| "bc_dims _ _ = None"

text \<open>
  The elements of the result, axis by axis from the outermost: an operand of size 1 on
  an axis is read again for every index of that axis. At rank 0 each operand holds its
  one element.
\<close>

fun bc_data :: "('a \<Rightarrow> 'a \<Rightarrow> 'a) \<Rightarrow> nat list \<Rightarrow> nat list \<Rightarrow> 'a list \<Rightarrow> 'a list \<Rightarrow> 'a list" where
  "bc_data f [] [] xs ys = [f (hd xs) (hd ys)]"
| "bc_data f (a # s) (b # t) xs ys =
     concat (map (\<lambda>i. bc_data f s t
                         (chunk (prod_list s) (if a = 1 then 0 else i) xs)
                         (chunk (prod_list t) (if b = 1 then 0 else i) ys))
                 [0 ..< (if a = 1 then b else a)])"
| "bc_data f _ _ xs ys = []"

text \<open>\<^verbatim>\<open>x * y\<close> on two arrays.\<close>

definition jnp_multiply :: "'a engine \<Rightarrow> 'a tensor \<Rightarrow> 'a tensor \<Rightarrow> error + 'a tensor" where
  "jnp_multiply E x y =
     (let n = max (length (shape x)) (length (shape y));
          sx = pad_shape n (shape x);
          sy = pad_shape n (shape y)
      in case bc_dims sx sy of
           None \<Rightarrow> Inl IncompatibleShapes
         | Some s \<Rightarrow> Inr \<lparr>dtype = promote_types E (dtype x) (dtype y),
                          shape = s,
                          data = bc_data (el_mul E) sx sy (data x) (data y)\<rparr>)"

text \<open>\<^verbatim>\<open>jnp.expand_dims(x, axis=range(k))\<close>: \<open>k\<close> new leading axes of size 1.\<close>

definition expand_dims_leading :: "nat \<Rightarrow> 'a tensor \<Rightarrow> 'a tensor" where
  "expand_dims_leading k x = x\<lparr>shape := replicate k 1 @ shape x\<rparr>"

subsection \<open>Parameters\<close>

text \<open>
  An initializer is called with a shape and, optionally, an element type; the call can
  leave the type out, or pass \<^verbatim>\<open>None\<close> or a type. (The random key is part of the
  initializer here.)
\<close>

datatype dtype_arg = NotPassed | Passed "dtype option"

type_synonym 'a initializer = "nat list \<Rightarrow> dtype_arg \<Rightarrow> 'a tensor"

type_synonym 'a params = "string \<rightharpoonup> 'a tensor"

text \<open>
  A module is called while its parameters are being initialised (\<^verbatim>\<open>init\<close>) or with
  given parameters (\<^verbatim>\<open>apply\<close>).
\<close>

datatype phase = Initializing | Applying

text \<open>
  \<^verbatim>\<open>self.param(name, init, shape [, dtype])\<close>: the stored parameter of that name when
  there is one (after a check of its shape against what the initializer would make).
  When there is none, initialisation stores and returns the initializer's result, and
  a call with given parameters fails.
\<close>

definition param :: "phase \<Rightarrow> 'a params \<Rightarrow> string \<Rightarrow> 'a initializer \<Rightarrow> nat list
    \<Rightarrow> dtype_arg \<Rightarrow> error + ('a tensor \<times> 'a params)" where
  "param ph ps name init s d =
     (case ps name of
        Some w \<Rightarrow> if shape w = shape (init s d) then Inr (w, ps) else Inl ParamShapeMismatch
      | None \<Rightarrow>
          (case ph of
             Initializing \<Rightarrow> Inr (init s d, ps(name \<mapsto> init s d))
           | Applying \<Rightarrow> Inl ParamNotFound))"

text \<open>\<^verbatim>\<open>nn.initializers.zeros_init()\<close>\<close>

definition zeros_init :: "'a engine \<Rightarrow> 'a initializer" where
  "zeros_init E s d =
     \<lparr>dtype = (case d of Passed (Some t) \<Rightarrow> t | _ \<Rightarrow> default_float E),
      shape = s,
      data = replicate (prod_list s) (el_lit E 0)\<rparr>"

subsection \<open>reduce\_precision\<close>

text \<open>
  \<^verbatim>\<open>jnp.finfo(dtype)\<close>: the exponent and mantissa widths of a floating type; a complex
  type answers with those of its components; any other type is refused.
\<close>

fun finfo :: "dtype \<Rightarrow> error + (nat \<times> nat)" where
  "finfo Float16 = Inr (5, 10)"
| "finfo BFloat16 = Inr (8, 7)"
| "finfo Float32 = Inr (8, 23)"
| "finfo Float64 = Inr (11, 52)"
| "finfo Complex64 = Inr (8, 23)"
| "finfo Complex128 = Inr (11, 52)"
| "finfo _ = Inl NotInexact"

text \<open>\<^verbatim>\<open>jax.lax.reduce_precision(x, exponent_bits, mantissa_bits)\<close>\<close>

definition lax_reduce_precision :: "'a engine \<Rightarrow> 'a tensor \<Rightarrow> nat \<Rightarrow> nat \<Rightarrow> error + 'a tensor" where
  "lax_reduce_precision E x nexp nmant =
     (if is_floating (dtype x)
      then Inr (map_tensor (el_reduce_precision E nexp nmant) (dtype x) x)
      else Inl NotFloating)"

definition reduce_precision :: "'a engine \<Rightarrow> 'a tensor \<Rightarrow> error + 'a tensor" where
  "reduce_precision E x =
     (case finfo (dtype x) of
        Inl e \<Rightarrow> Inl e
      | Inr (nexp, nmant) \<Rightarrow> lax_reduce_precision E x nexp nmant)"

subsection \<open>Einsum\<close>

record 'a Einsum =
  es_shape :: "nat list"
  weight_name :: string
  initializer :: "'a initializer"
  es_dtype :: "dtype option"
  w_scale :: "real option"

text \<open>Python's truth value of a \<^verbatim>\<open>float | None\<close>.\<close>

fun truthy :: "real option \<Rightarrow> bool" where
  "truthy None = False"
| "truthy (Some m) = (m \<noteq> 0)"

definition Einsum_call :: "'a engine \<Rightarrow> phase \<Rightarrow> 'a Einsum \<Rightarrow> 'a params \<Rightarrow> string
    \<Rightarrow> 'a tensor \<Rightarrow> error + ('a tensor \<times> 'a params)" where
  "Einsum_call E ph m ps eqn x =
     (case param ph ps (weight_name m) (initializer m) (es_shape m)
             (Passed (case es_dtype m of Some d \<Rightarrow> Some d | None \<Rightarrow> None)) of
        Inl e \<Rightarrow> Inl e
      | Inr (w, ps') \<Rightarrow>
          (let w = (if truthy (w_scale m) then mul_scalar E w (the (w_scale m)) else w)
           in case jnp_einsum E eqn x w of
                Inl e \<Rightarrow> Inl e
              | Inr y \<Rightarrow> Inr (y, ps')))"

subsection \<open>RMSNorm\<close>

record 'a RMSNorm =
  with_scale :: bool
  scale_init :: "'a initializer"
  scale_plus_one :: bool
  guard_against_excess_precision :: bool

text \<open>\<^verbatim>\<open>x.shape[-1]\<close>\<close>

definition shape_last :: "'a tensor \<Rightarrow> error + nat" where
  "shape_last x = (if shape x = [] then Inl IndexError else Inr (last (shape x)))"

definition RMSNorm_call :: "'a engine \<Rightarrow> phase \<Rightarrow> 'a RMSNorm \<Rightarrow> 'a params \<Rightarrow> 'a tensor
    \<Rightarrow> error + ('a tensor \<times> 'a params)" where
  "RMSNorm_call E ph m ps x0 =
     (case (if guard_against_excess_precision m then reduce_precision E x0 else Inr x0) of
        Inl e \<Rightarrow> Inl e
      | Inr x \<Rightarrow>
     (case jnp_mean_last E (jnp_square E x) of
        Inl e \<Rightarrow> Inl e
      | Inr var \<Rightarrow>
     (case jnp_multiply E x (lax_rsqrt E (add_scalar E var (1 / 1000000))) of
        Inl e \<Rightarrow> Inl e
      | Inr normed_inputs \<Rightarrow>
          if with_scale m then
            (case shape_last x of
               Inl e \<Rightarrow> Inl e
             | Inr d \<Rightarrow>
            (case param ph ps ''scale'' (scale_init m) [d] NotPassed of
               Inl e \<Rightarrow> Inl e
             | Inr (scale, ps') \<Rightarrow>
                 (let scale = expand_dims_leading (length (shape x) - 1) scale
                  in case jnp_multiply E normed_inputs
                            (if scale_plus_one m then scalar_add E 1 scale else scale) of
                       Inl e \<Rightarrow> Inl e
                     | Inr y \<Rightarrow> Inr (y, ps'))))
          else Inr (normed_inputs, ps))))"

text \<open>
  The last statements of \<^verbatim>\<open>RMSNorm.__call__\<close> on their own (from
  \<^verbatim>\<open>if self.with_scale:\<close> to the \<^verbatim>\<open>return\<close>), for the array \<open>x\<close> that reached the
  normalisation and the normalised array.
\<close>

definition scale_step :: "'a engine \<Rightarrow> phase \<Rightarrow> 'a RMSNorm \<Rightarrow> 'a params \<Rightarrow> 'a tensor
    \<Rightarrow> 'a tensor \<Rightarrow> error + ('a tensor \<times> 'a params)" where
  "scale_step E ph m ps x normed_inputs =
     (if with_scale m then
        (case shape_last x of
           Inl e \<Rightarrow> Inl e
         | Inr d \<Rightarrow>
        (case param ph ps ''scale'' (scale_init m) [d] NotPassed of
           Inl e \<Rightarrow> Inl e
         | Inr (scale, ps') \<Rightarrow>
             (let scale = expand_dims_leading (length (shape x) - 1) scale
              in case jnp_multiply E normed_inputs
                        (if scale_plus_one m then scalar_add E 1 scale else scale) of
                   Inl e \<Rightarrow> Inl e
                 | Inr y \<Rightarrow> Inr (y, ps'))))
      else Inr (normed_inputs, ps))"

subsection \<open>An instance of the library: extended reals\<close>

text \<open>
  An arithmetic to evaluate the definitions on: real numbers, the two infinities and
  NaN, with the IEEE 754 rules for the special values. The finite results of the
  sum, the product, the mean and the reciprocal square root are exact (no rounding and
  no overflow), so it is the arithmetic of the floating-point types only on the special
  values and on what the exact operations share with them; \<open>reduce_precision\<close> rounds
  as the format does, and the square of an integer wraps around.
\<close>

datatype xreal = Fin real | PInf | NInf | NaN

definition inf_of_sign :: "real \<Rightarrow> xreal" where
  "inf_of_sign r = (if 0 < r then PInf else if r < 0 then NInf else NaN)"

fun xr_add :: "xreal \<Rightarrow> xreal \<Rightarrow> xreal" where
  "xr_add (Fin a) (Fin b) = Fin (a + b)"
| "xr_add NaN _ = NaN"
| "xr_add _ NaN = NaN"
| "xr_add PInf NInf = NaN"
| "xr_add NInf PInf = NaN"
| "xr_add PInf _ = PInf"
| "xr_add _ PInf = PInf"
| "xr_add NInf _ = NInf"
| "xr_add _ NInf = NInf"

fun xr_mul :: "xreal \<Rightarrow> xreal \<Rightarrow> xreal" where
  "xr_mul (Fin a) (Fin b) = Fin (a * b)"
| "xr_mul NaN _ = NaN"
| "xr_mul _ NaN = NaN"
| "xr_mul (Fin a) PInf = inf_of_sign a"
| "xr_mul (Fin a) NInf = inf_of_sign (- a)"
| "xr_mul PInf (Fin b) = inf_of_sign b"
| "xr_mul NInf (Fin b) = inf_of_sign (- b)"
| "xr_mul PInf PInf = PInf"
| "xr_mul PInf NInf = NInf"
| "xr_mul NInf PInf = NInf"
| "xr_mul NInf NInf = PInf"

text \<open>The mean of no elements is \<open>0 / 0\<close>, that is NaN.\<close>

definition xr_mean :: "xreal list \<Rightarrow> xreal" where
  "xr_mean vs =
     (if vs = [] then NaN
      else case foldl xr_add (Fin 0) vs of
             Fin a \<Rightarrow> Fin (a / real (length vs))
           | v \<Rightarrow> v)"

fun xr_rsqrt :: "xreal \<Rightarrow> xreal" where
  "xr_rsqrt (Fin a) = (if 0 < a then Fin (1 / sqrt a) else if a = 0 then PInf else NaN)"
| "xr_rsqrt PInf = Fin 0"
| "xr_rsqrt NInf = NaN"
| "xr_rsqrt NaN = NaN"

text \<open>
  Rounding to the binary format with \<open>nexp\<close> exponent bits and \<open>nmant\<close> mantissa bits:
  to the nearest value of the format, a tie to the even mantissa. The values of the
  format in the binade \<open>[2 ^ e, 2 ^ (e + 1))\<close> are the multiples of \<open>2 ^ (e - nmant)\<close>;
  below the smallest normal exponent \<open>2 - 2 ^ (nexp - 1)\<close> the spacing stays that of the
  smallest binade; a result of magnitude \<open>2 ^ (2 ^ (nexp - 1))\<close> or more is an infinity.
\<close>

definition pow2 :: "int \<Rightarrow> real" where
  "pow2 k = (if 0 \<le> k then 2 ^ nat k else 1 / 2 ^ nat (- k))"

definition round_even :: "real \<Rightarrow> int" where
  "round_even x =
     (if x - of_int \<lfloor>x\<rfloor> < 1 / 2 then \<lfloor>x\<rfloor>
      else if 1 / 2 < x - of_int \<lfloor>x\<rfloor> then \<lfloor>x\<rfloor> + 1
      else if even \<lfloor>x\<rfloor> then \<lfloor>x\<rfloor> else \<lfloor>x\<rfloor> + 1)"

definition round_format :: "nat \<Rightarrow> nat \<Rightarrow> real \<Rightarrow> xreal" where
  "round_format nexp nmant v =
     (if v = 0 then Fin 0
      else let e = max \<lfloor>log 2 \<bar>v\<bar>\<rfloor> (2 - 2 ^ (nexp - 1));
               q = pow2 (e - int nmant);
               r = of_int (round_even (v / q)) * q
           in if 2 ^ (2 ^ (nexp - 1)) \<le> \<bar>r\<bar> then inf_of_sign v else Fin r)"

text \<open>
  \<^verbatim>\<open>lax.reduce_precision\<close> on one element: a finite value is rounded to the format,
  the infinities and NaN stay. \<open>reduce_precision\<close> passes the widths of the array's own
  type, so a value which that type holds is a value of the format and is kept; the
  rounding says what becomes of any other real.
\<close>

fun xr_reduce_precision :: "nat \<Rightarrow> nat \<Rightarrow> xreal \<Rightarrow> xreal" where
  "xr_reduce_precision nexp nmant (Fin a) = round_format nexp nmant a"
| "xr_reduce_precision nexp nmant v = v"

text \<open>
  The square in an element type: the integer types wrap around at their width (a bool
  is squared as a 32-bit integer), the other types do not.
\<close>

definition wrap_int :: "nat \<Rightarrow> xreal \<Rightarrow> xreal" where
  "wrap_int bits v =
     (case v of
        Fin r \<Rightarrow> Fin (of_int ((\<lfloor>r\<rfloor> + 2 ^ (bits - 1)) mod 2 ^ bits - 2 ^ (bits - 1)))
      | _ \<Rightarrow> v)"

fun xr_square :: "dtype \<Rightarrow> xreal \<Rightarrow> xreal" where
  "xr_square Bool v = wrap_int 32 (xr_mul v v)"
| "xr_square Int32 v = wrap_int 32 (xr_mul v v)"
| "xr_square Int64 v = wrap_int 64 (xr_mul v v)"
| "xr_square t v = xr_mul v v"

fun to_numeric :: "dtype \<Rightarrow> dtype" where
  "to_numeric Bool = Int32"
| "to_numeric t = t"

fun xr_le :: "xreal \<Rightarrow> xreal \<Rightarrow> bool" where
  "xr_le (Fin a) (Fin b) = (a \<le> b)"
| "xr_le NaN _ = False"
| "xr_le _ NaN = False"
| "xr_le NInf _ = True"
| "xr_le _ PInf = True"
| "xr_le _ _ = False"

fun xr_is_finite :: "xreal \<Rightarrow> bool" where
  "xr_is_finite (Fin a) = True"
| "xr_is_finite _ = False"

text \<open>
  The promotion of two element types (bool below the integers, these below the floats,
  \<open>float16\<close> and \<open>bfloat16\<close> joining at \<open>float32\<close>, the complex types on top), and the type
  an array takes when it meets a Python float or is averaged, with \<open>float32\<close> the
  default float.
\<close>

definition jax_promote_types :: "dtype \<Rightarrow> dtype \<Rightarrow> dtype" where
  "jax_promote_types a b =
     (if a = b then a
      else if a = Complex128 \<or> b = Complex128 then Complex128
      else if a = Complex64 \<or> b = Complex64
        then (if a = Float64 \<or> b = Float64 then Complex128 else Complex64)
      else if a = Float64 \<or> b = Float64 then Float64
      else if a = Float32 \<or> b = Float32 then Float32
      else if a = Float16 \<or> b = Float16
        then (if a = BFloat16 \<or> b = BFloat16 then Float32 else Float16)
      else if a = BFloat16 \<or> b = BFloat16 then BFloat16
      else if a = Int64 \<or> b = Int64 then Int64
      else Int32)"

fun to_inexact :: "dtype \<Rightarrow> dtype" where
  "to_inexact Bool = Float32"
| "to_inexact Int32 = Float32"
| "to_inexact Int64 = Float32"
| "to_inexact t = t"

text \<open>A contraction that knows one equation, the inner product of two vectors.\<close>

definition inner_einsum :: "string \<Rightarrow> xreal tensor \<Rightarrow> xreal tensor \<Rightarrow> error + xreal tensor" where
  "inner_einsum eqn x w =
     (if eqn = ''i,i->'' \<and> length (shape x) = 1 \<and> shape w = shape x
      then Inr \<lparr>dtype = jax_promote_types (dtype x) (dtype w), shape = [],
                data = [foldl xr_add (Fin 0) (map2 xr_mul (data x) (data w))]\<rparr>
      else Inl EinsumError)"

definition xr_engine :: "xreal engine" where
  "xr_engine =
     \<lparr>el_lit = Fin, el_add = xr_add, el_mul = xr_mul, el_square = xr_square,
      el_mean = xr_mean, el_rsqrt = xr_rsqrt, el_reduce_precision = xr_reduce_precision,
      el_le = xr_le, el_is_nan = (\<lambda>v. v = NaN), el_is_finite = xr_is_finite,
      el_is_zero = (\<lambda>v. v = Fin 0),
      promote_types = jax_promote_types, weak_float_type = to_inexact,
      mean_type = to_inexact, square_type = to_numeric, default_float = Float32,
      jnp_einsum = inner_einsum\<rparr>"

subsection \<open>An instance with rounding: float32\<close>

text \<open>
  The arithmetic of \<open>float32\<close> arrays: every operation gives the exact result rounded
  to 8 exponent bits and 23 mantissa bits, and a Python float is rounded when it meets
  the array.
\<close>

definition f32 :: "xreal \<Rightarrow> xreal" where
  "f32 v = xr_reduce_precision 8 23 v"

definition f32_inner_einsum :: "string \<Rightarrow> xreal tensor \<Rightarrow> xreal tensor \<Rightarrow> error + xreal tensor" where
  "f32_inner_einsum eqn x w =
     (if eqn = ''i,i->'' \<and> length (shape x) = 1 \<and> shape w = shape x
      then Inr \<lparr>dtype = jax_promote_types (dtype x) (dtype w), shape = [],
                data = [foldl (\<lambda>a b. f32 (xr_add a b)) (Fin 0)
                          (map2 (\<lambda>a b. f32 (xr_mul a b)) (data x) (data w))]\<rparr>
      else Inl EinsumError)"

definition f32_engine :: "xreal engine" where
  "f32_engine =
     \<lparr>el_lit = (\<lambda>c. f32 (Fin c)), el_add = (\<lambda>a b. f32 (xr_add a b)),
      el_mul = (\<lambda>a b. f32 (xr_mul a b)), el_square = (\<lambda>d v. f32 (xr_square d v)),
      el_mean = (\<lambda>vs. f32 (xr_mean vs)), el_rsqrt = (\<lambda>v. f32 (xr_rsqrt v)),
      el_reduce_precision = xr_reduce_precision,
      el_le = xr_le, el_is_nan = (\<lambda>v. v = NaN), el_is_finite = xr_is_finite,
      el_is_zero = (\<lambda>v. v = Fin 0),
      promote_types = jax_promote_types, weak_float_type = to_inexact,
      mean_type = to_inexact, square_type = to_numeric, default_float = Float32,
      jnp_einsum = f32_inner_einsum\<rparr>"

subsection \<open>The formulas of the specification\<close>

text \<open>
  The normalisation in the words of the specification:
  \<^verbatim>\<open>x * rsqrt(mean(x^2, last axis, kept) + 1e-6)\<close>.
\<close>

definition rms_formula :: "'a engine \<Rightarrow> 'a tensor \<Rightarrow> error + 'a tensor" where
  "rms_formula E x =
     (case jnp_mean_last E (jnp_square E x) of
        Inl e \<Rightarrow> Inl e
      | Inr mean_sq \<Rightarrow> jnp_multiply E x (lax_rsqrt E (add_scalar E mean_sq (1 / 1000000))))"

text \<open>
  The operand of \<^verbatim>\<open>jax.lax.rsqrt\<close> in \<open>RMSNorm_call\<close>, for the array \<open>x\<close> that
  reaches the normalisation: \<^verbatim>\<open>var + 1e-06\<close> with \<^verbatim>\<open>var = jnp.mean(jnp.square(x), axis=-1, keepdims=True)\<close>.
\<close>

definition rsqrt_operand :: "'a engine \<Rightarrow> 'a tensor \<Rightarrow> error + 'a tensor" where
  "rsqrt_operand E x =
     (case jnp_mean_last E (jnp_square E x) of
        Inl e \<Rightarrow> Inl e
      | Inr var \<Rightarrow> Inr (add_scalar E var (1 / 1000000)))"

text \<open>
  The same normalisation block by block: every element of a block along the last axis
  is multiplied by the reciprocal square root of the mean of that block's squares plus
  \<open>1 / 1000000\<close>.
\<close>

definition rms_rows :: "'a engine \<Rightarrow> 'a tensor \<Rightarrow> 'a list" where
  "rms_rows E x =
     concat (map (\<lambda>i. let row = chunk (last (shape x)) i (data x)
                       in map (\<lambda>v. el_mul E v
                                    (el_rsqrt E (el_add E (el_mean E (map (el_square E (dtype x)) row))
                                                          (el_lit E (1 / 1000000))))) row)
                 [0 ..< prod_list (butlast (shape x))])"

subsection \<open>Sample inputs\<close>

definition sample_input :: "xreal tensor" where
  "sample_input = \<lparr>dtype = Float32, shape = [2, 3],
                    data = [Fin 3, Fin 4, Fin 0, Fin 1, Fin 1, Fin 1]\<rparr>"

definition sample_vector :: "xreal tensor" where
  "sample_vector = \<lparr>dtype = Float32, shape = [1], data = [Fin 2]\<rparr>"

definition sample_weight :: "xreal tensor" where
  "sample_weight = \<lparr>dtype = Float32, shape = [1], data = [Fin 3]\<rparr>"

definition sample_einsum :: "xreal Einsum" where
  "sample_einsum = \<lparr>es_shape = [1], weight_name = ''w'', initializer = zeros_init xr_engine,
                     es_dtype = None, w_scale = Some 2\<rparr>"

definition sample_norm :: "xreal RMSNorm" where
  "sample_norm = \<lparr>with_scale = True, scale_init = zeros_init xr_engine,
                   scale_plus_one = True, guard_against_excess_precision = False\<rparr>"



definition empty_rows :: "xreal tensor" where
  "empty_rows = \<lparr>dtype = Float32, shape = [2, 0], data = []\<rparr>"

definition bf16_vector :: "xreal tensor" where
  "bf16_vector = \<lparr>dtype = BFloat16, shape = [1], data = [Fin 2]\<rparr>"

definition stored_weight :: "xreal params" where
  "stored_weight = [''w'' \<mapsto> sample_weight]"

definition bf16_row :: "xreal tensor" where
  "bf16_row = \<lparr>dtype = BFloat16, shape = [1, 2], data = [Fin 3, Fin 4]\<rparr>"

text \<open>A 32-bit integer whose square is beyond the range of that type.\<close>

definition int32_input :: "xreal tensor" where
  "int32_input = \<lparr>dtype = Int32, shape = [1, 1], data = [Fin 46341]\<rparr>"

text \<open>The \<open>float32\<close> number next above 1, as a vector and as a stored weight.\<close>

definition f32_vector :: "xreal tensor" where
  "f32_vector = \<lparr>dtype = Float32, shape = [1], data = [Fin (8388609 / 8388608)]\<rparr>"

definition f32_weight :: "xreal params" where
  "f32_weight = [''w'' \<mapsto> f32_vector]"

section \<open>Properties\<close>

subsection \<open>Blocks and broadcasting\<close>

lemma chunk_length: "(i + 1) * n \<le> length xs \<Longrightarrow> length (chunk n i xs) = n"
  by (simp add: chunk_def)

lemma set_chunk: "set (chunk n i xs) \<subseteq> set xs"
  unfolding chunk_def by (meson set_take_subset set_drop_subset subset_trans)



lemma length_concat_const:
  "(\<And>i. i < d \<Longrightarrow> length (g i) = n) \<Longrightarrow> length (concat (map g [0 ..< d])) = d * n"
  by (induction d) simp_all

lemma bc_dims_count:
  "bc_dims (a # s) (b # t) = Some u \<Longrightarrow>
     \<exists>u'. u = (if a = 1 then b else a) # u' \<and> bc_dims s t = Some u'"
  by (auto split: if_splits)

lemma length_bc_data:
  "bc_dims s t = Some u \<Longrightarrow> length (bc_data f s t xs ys) = prod_list u"
proof (induction f s t xs ys arbitrary: u rule: bc_data.induct)
  case (1 f xs ys)
  then show ?case by simp
next
  case (2 f a s b t xs ys)
  from bc_dims_count [OF "2.prems"] obtain u' where
    u: "u = (if a = 1 then b else a) # u'" and st: "bc_dims s t = Some u'" by blast
  have "length (concat (map (\<lambda>i. bc_data f s t
                         (chunk (prod_list s) (if a = 1 then 0 else i) xs)
                         (chunk (prod_list t) (if b = 1 then 0 else i) ys))
                 [0 ..< (if a = 1 then b else a)])) = (if a = 1 then b else a) * prod_list u'"
  proof (rule length_concat_const)
    fix i assume "i < (if a = 1 then b else a)"
    then have "i \<in> set [0 ..< (if a = 1 then b else a)]" by simp
    then show "length (bc_data f s t
                         (chunk (prod_list s) (if a = 1 then 0 else i) xs)
                         (chunk (prod_list t) (if b = 1 then 0 else i) ys)) = prod_list u'"
      using st by (rule "2.IH")
  qed
  then show ?case by (simp add: u)
qed simp_all


lemma bc_dims_last_one: "bc_dims (s @ [d]) (s @ [1]) = Some (s @ [d])"
  by (induction s) simp_all

lemma bc_dims_leading_ones: "bc_dims (s @ [d]) (replicate (length s) 1 @ [d]) = Some (s @ [d])"
  by (induction s) simp_all


lemma prod_list_split_last: "s \<noteq> [] \<Longrightarrow> prod_list s = prod_list (butlast s) * last s"
  using prod_list.append [of "butlast s" "[last s]"] by simp

lemma nth_chunk: "j < n \<Longrightarrow> (i + 1) * n \<le> length ys \<Longrightarrow> chunk n i ys ! j = ys ! (i * n + j)"
  by (simp add: chunk_def)

lemma chunk_map: "chunk n i (map f xs) = map f (chunk n i xs)"
  by (simp add: chunk_def take_map drop_map)

lemma chunk_chunk:
  assumes "j < n"
  shows "chunk d j (chunk (n * d) i xs) = chunk d (i * n + j) xs"
proof -
  have "Suc j * d \<le> n * d"
    using assms by (intro mult_le_mono1) simp
  then have "d + j * d \<le> n * d" by simp
  then have m: "min d (n * d - j * d) = d" by simp
  have idx: "j * d + i * (n * d) = (i * n + j) * d"
    by (simp add: add_mult_distrib mult.assoc add.commute)
  have "chunk d j (chunk (n * d) i xs)
      = take d (drop (j * d) (take (n * d) (drop (i * (n * d)) xs)))"
    by (simp only: chunk_def)
  also have "\<dots> = take d (take (n * d - j * d) (drop (j * d) (drop (i * (n * d)) xs)))"
    by (simp only: drop_take)
  also have "\<dots> = take d (drop (j * d + i * (n * d)) xs)"
    by (simp only: take_take m drop_drop)
  also have "\<dots> = chunk d (i * n + j) xs"
    by (simp only: idx chunk_def)
  finally show ?thesis .
qed

lemma map_upt_shift: "map G [m ..< m + n] = map (\<lambda>j. G (m + j)) [0 ..< n]"
proof -
  have "[m ..< m + n] = map (\<lambda>j. j + m) [0 ..< n]"
    using map_add_upt [of m n] by (simp only: add.commute)
  then have "map G [m ..< m + n] = map G (map (\<lambda>j. j + m) [0 ..< n])" by (rule arg_cong)
  also have "\<dots> = map (\<lambda>j. G (m + j)) [0 ..< n]"
    by (simp only: map_map comp_def add.commute)
  finally show ?thesis .
qed

lemma concat_nested:
  "concat (map (\<lambda>i. concat (map (\<lambda>j. G (i * n + j)) [0 ..< n])) [0 ..< a])
     = concat (map G [0 ..< a * n])"
proof (induction a)
  case 0
  then show ?case by simp
next
  case (Suc a)
  have split: "[0 ..< Suc a * n] = [0 ..< a * n] @ [a * n ..< a * n + n]"
    using upt_add_eq_append [of 0 "a * n" n] by (simp only: mult_Suc add.commute le0 add_0)
  have "concat (map (\<lambda>i. concat (map (\<lambda>j. G (i * n + j)) [0 ..< n])) [0 ..< Suc a])
      = concat (map (\<lambda>i. concat (map (\<lambda>j. G (i * n + j)) [0 ..< n])) [0 ..< a])
          @ concat (map (\<lambda>j. G (a * n + j)) [0 ..< n])"
    by simp
  also have "\<dots> = concat (map G [0 ..< a * n]) @ concat (map G [a * n ..< a * n + n])"
    by (simp only: Suc.IH map_upt_shift)
  also have "\<dots> = concat (map G [0 ..< Suc a * n])"
    by (simp only: split map_append concat_append)
  finally show ?case .
qed

lemma bc_data_same_head:
  "bc_data f (a # s) (a # t) xs ys
     = concat (map (\<lambda>i. bc_data f s t (chunk (prod_list s) i xs) (chunk (prod_list t) i ys))
                   [0 ..< a])"
  by (cases "a = 1") simp_all

lemma bc_data_last:
  assumes "length xs = d"
  shows "bc_data f [d] [1] xs [y] = map (\<lambda>v. f v y) xs"
proof -
  have el: "bc_data f [] [] (chunk 1 (if d = 1 then 0 else i) xs) (chunk 1 0 [y]) = [f (xs ! i) y]"
    if "i < d" for i
  proof -
    have "(if d = 1 then 0 else i) = i" using that by auto
    moreover have "hd (chunk 1 i xs) = xs ! i"
      using that assms by (simp add: chunk_def hd_drop_conv_nth)
    ultimately show ?thesis by (simp add: chunk_def)
  qed
  have "bc_data f [d] [1] xs [y]
      = concat (map (\<lambda>i. bc_data f [] [] (chunk 1 (if d = 1 then 0 else i) xs) (chunk 1 0 [y]))
                    [0 ..< d])"
    by (cases "d = 1") simp_all
  also have "\<dots> = concat (map (\<lambda>i. [f (xs ! i) y]) [0 ..< d])"
  proof (rule arg_cong [where f = concat], rule map_cong [OF refl])
    fix i assume "i \<in> set [0 ..< d]"
    then have "i < d" by simp
    then show "bc_data f [] [] (chunk 1 (if d = 1 then 0 else i) xs) (chunk 1 0 [y]) = [f (xs ! i) y]"
      by (rule el)
  qed
  also have "\<dots> = map (\<lambda>i. f (xs ! i) y) [0 ..< length xs]"
    using assms by (simp add: concat_map_singleton)
  also have "\<dots> = map (\<lambda>v. f v y) (map (\<lambda>i. xs ! i) [0 ..< length xs])"
    by (simp add: comp_def)
  also have "\<dots> = map (\<lambda>v. f v y) xs"
    by (simp only: map_nth)
  finally show ?thesis .
qed

text \<open>Broadcasting one value for each block along the last axis.\<close>

lemma bc_data_rows:
  assumes "length xs = prod_list s * d" and "length ys = prod_list s"
  shows "bc_data f (s @ [d]) (s @ [1]) xs ys
           = concat (map (\<lambda>i. map (\<lambda>v. f v (ys ! i)) (chunk d i xs)) [0 ..< prod_list s])"
  using assms
proof (induction s arbitrary: xs ys)
  case Nil
  then obtain y where ys: "ys = [y]" by (auto simp: length_Suc_conv)
  from Nil have "length xs = d" by simp
  then show ?case
    using bc_data_last [of xs d f y] by (simp add: ys chunk_def)
next
  case (Cons a s)
  let ?n = "prod_list s"
  let ?G = "\<lambda>k. map (\<lambda>v. f v (ys ! k)) (chunk d k xs)"
  have inner: "bc_data f (s @ [d]) (s @ [1]) (chunk (prod_list (s @ [d])) i xs)
                  (chunk (prod_list (s @ [1])) i ys)
               = concat (map (\<lambda>j. ?G (i * ?n + j)) [0 ..< ?n])" if i: "i < a" for i
  proof -
    have le: "Suc i \<le> a" using i by simp
    have "(i + 1) * (?n * d) \<le> a * (?n * d)"
      using le by (intro mult_le_mono1) simp
    then have lx: "length (chunk (?n * d) i xs) = ?n * d"
      using Cons.prems(1) by (intro chunk_length) (simp add: mult.assoc)
    have ley: "(i + 1) * ?n \<le> length ys"
      using le Cons.prems(2) mult_le_mono1 [of "Suc i" a ?n] by simp
    then have ly: "length (chunk ?n i ys) = ?n"
      by (intro chunk_length)
    have "bc_data f (s @ [d]) (s @ [1]) (chunk (?n * d) i xs) (chunk ?n i ys)
            = concat (map (\<lambda>j. map (\<lambda>v. f v (chunk ?n i ys ! j)) (chunk d j (chunk (?n * d) i xs)))
                          [0 ..< ?n])"
      by (rule Cons.IH [OF lx ly])
    also have "\<dots> = concat (map (\<lambda>j. ?G (i * ?n + j)) [0 ..< ?n])"
    proof (rule arg_cong [where f = concat], rule map_cong [OF refl])
      fix j assume "j \<in> set [0 ..< ?n]"
      then have j: "j < ?n" by simp
      show "map (\<lambda>v. f v (chunk ?n i ys ! j)) (chunk d j (chunk (?n * d) i xs)) = ?G (i * ?n + j)"
        by (simp only: nth_chunk [OF j ley] chunk_chunk [OF j])
    qed
    finally show ?thesis by simp
  qed
  have "bc_data f ((a # s) @ [d]) ((a # s) @ [1]) xs ys
      = concat (map (\<lambda>i. bc_data f (s @ [d]) (s @ [1]) (chunk (prod_list (s @ [d])) i xs)
                             (chunk (prod_list (s @ [1])) i ys)) [0 ..< a])"
    by (simp only: append_Cons bc_data_same_head)
  also have "\<dots> = concat (map (\<lambda>i. concat (map (\<lambda>j. ?G (i * ?n + j)) [0 ..< ?n])) [0 ..< a])"
  proof (rule arg_cong [where f = concat], rule map_cong [OF refl])
    fix i assume "i \<in> set [0 ..< a]"
    then have "i < a" by simp
    then show "bc_data f (s @ [d]) (s @ [1]) (chunk (prod_list (s @ [d])) i xs)
                  (chunk (prod_list (s @ [1])) i ys)
               = concat (map (\<lambda>j. ?G (i * ?n + j)) [0 ..< ?n])" by (rule inner)
  qed
  also have "\<dots> = concat (map ?G [0 ..< a * ?n])"
    by (rule concat_nested)
  finally show ?case by simp
qed

subsection \<open>The steps of a call\<close>

lemma reduce_precision_cases:
  "(is_floating (dtype x) \<and>
      (\<exists>y. reduce_precision E x = Inr y \<and> dtype y = dtype x \<and> shape y = shape x \<and>
           length (data y) = length (data x))) \<or>
   (\<not> is_floating (dtype x) \<and> (\<exists>e. reduce_precision E x = Inl e))"
  by (cases "dtype x") (simp_all add: reduce_precision_def lax_reduce_precision_def map_tensor_def)

lemma reduce_precision_shape:
  "reduce_precision E x = Inr y \<Longrightarrow> shape y = shape x \<and> is_floating (dtype x)"
  using reduce_precision_cases [of x E] by auto

lemma rms_formula_rank0: "shape x = [] \<Longrightarrow> rms_formula E x = Inl AxisOutOfBounds"
  by (simp add: rms_formula_def jnp_mean_last_def jnp_square_def map_tensor_def)

lemma rms_formula_ok:
  assumes "shape x \<noteq> []"
  shows "rms_formula E x =
           Inr \<lparr>dtype = promote_types E (dtype x) (weak_float_type E (mean_type E (square_type E (dtype x)))),
                shape = shape x,
                data = bc_data (el_mul E) (shape x) (butlast (shape x) @ [1]) (data x)
                         (map (\<lambda>i. el_rsqrt E (el_add E
                                 (el_mean E (chunk (last (shape x)) i (map (el_square E (dtype x)) (data x))))
                                 (el_lit E (1 / 1000000))))
                              [0 ..< prod_list (butlast (shape x))])\<rparr>"
proof -
  have bc: "bc_dims (shape x) (butlast (shape x) @ [1]) = Some (shape x)"
    using bc_dims_last_one [of "butlast (shape x)" "last (shape x)"] assms by simp
  have len: "length (butlast (shape x) @ [1]) = length (shape x)"
    using assms by (simp add: Suc_pred)
  show ?thesis
    using assms bc
    by (simp add: rms_formula_def jnp_mean_last_def jnp_square_def map_tensor_def
        jnp_multiply_def lax_rsqrt_def add_scalar_def pad_shape_def len comp_def Let_def del: bc_dims.simps)
qed

lemma rms_formula_shape:
  assumes "rms_formula E x = Inr n"
  shows "shape x \<noteq> [] \<and> shape n = shape x \<and> length (data n) = prod_list (shape x)"
proof -
  have ne: "shape x \<noteq> []" using assms rms_formula_rank0 [of x E] by auto
  have bc: "bc_dims (shape x) (butlast (shape x) @ [1]) = Some (shape x)"
    using bc_dims_last_one [of "butlast (shape x)" "last (shape x)"] ne by simp
  show ?thesis
    using assms ne by (auto simp: rms_formula_ok [OF ne] length_bc_data [OF bc] simp del: One_nat_def)
qed

lemma RMSNorm_call_unfold:
  "RMSNorm_call E ph m ps x0 =
     (case (if guard_against_excess_precision m then reduce_precision E x0 else Inr x0) of
        Inl e \<Rightarrow> Inl e
      | Inr x \<Rightarrow>
     (case rms_formula E x of
        Inl e \<Rightarrow> Inl e
      | Inr normed_inputs \<Rightarrow>
          if with_scale m then
            (case param ph ps ''scale'' (scale_init m) [last (shape x)] NotPassed of
               Inl e \<Rightarrow> Inl e
             | Inr (scale, ps') \<Rightarrow>
                 (case jnp_multiply E normed_inputs
                            (if scale_plus_one m
                             then scalar_add E 1 (expand_dims_leading (length (shape x) - 1) scale)
                             else expand_dims_leading (length (shape x) - 1) scale) of
                       Inl e \<Rightarrow> Inl e
                     | Inr y \<Rightarrow> Inr (y, ps')))
          else Inr (normed_inputs, ps)))"
proof -
  have "shape x \<noteq> []" if "rms_formula E x = Inr n" for x n
    using that rms_formula_shape by blast
  then show ?thesis
    by (auto simp: RMSNorm_call_def rms_formula_def shape_last_def Let_def
        split: sum.splits prod.splits)
qed

text \<open>
  The product with a scale vector along the last axis.
\<close>

lemma scale_multiply:
  assumes "shape n \<noteq> []" and "shape sc = [last (shape n)]"
  shows "jnp_multiply E n (sc\<lparr>shape := replicate (length (shape n) - 1) 1 @ shape sc\<rparr>) =
           Inr \<lparr>dtype = promote_types E (dtype n) (dtype sc), shape = shape n,
                data = bc_data (el_mul E) (shape n)
                         (replicate (length (shape n) - 1) 1 @ [last (shape n)]) (data n) (data sc)\<rparr>"
proof -
  have bc: "bc_dims (shape n) (replicate (length (shape n) - 1) 1 @ [last (shape n)]) = Some (shape n)"
    using bc_dims_leading_ones [of "butlast (shape n)" "last (shape n)"] assms(1) by simp
  have len: "Suc (length (shape n) - 1) = length (shape n)"
    using assms(1) by (simp add: Suc_pred)
  show ?thesis
    using assms bc
    by (simp add: jnp_multiply_def pad_shape_def len Let_def del: bc_dims.simps)
qed

lemma param_shape:
  assumes "param ph ps name init s d = Inr (w, ps')"
  shows "shape w = shape (init s d)"
  using assms by (auto simp: param_def split: option.splits if_splits phase.splits)

lemma param_again:
  assumes "param ph ps name init s d = Inr (w, ps')"
  shows "ps' name = Some w \<and> param ph ps' name init s d = Inr (w, ps')"
  using assms by (auto simp: param_def split: option.splits if_splits phase.splits)

lemma call_shape_aux:
  assumes init: "with_scale m \<Longrightarrow> shape (scale_init m [last (shape x)] NotPassed) = [last (shape x)]"
    and call: "RMSNorm_call E ph m ps x = Inr (y, ps')"
  shows "shape y = shape x \<and> wf_tensor y"
proof -
  obtain x' where g: "(if guard_against_excess_precision m then reduce_precision E x else Inr x) = Inr x'"
    using call by (auto simp: RMSNorm_call_unfold split: sum.splits)
  have sx: "shape x' = shape x"
    using g reduce_precision_shape [of E x x'] by (auto split: if_splits)
  obtain n where n: "rms_formula E x' = Inr n"
    using call g by (auto simp: RMSNorm_call_unfold split: sum.splits)
  from rms_formula_shape [OF n] sx
  have ne: "shape x \<noteq> []" and sn: "shape n = shape x" and ln: "length (data n) = prod_list (shape x)"
    by simp_all
  show ?thesis
  proof (cases "with_scale m")
    case False
    then have "y = n" using call g n by (simp add: RMSNorm_call_unfold)
    then show ?thesis using sn ln by (simp add: wf_tensor_def)
  next
    case True
    obtain sc where p: "param ph ps ''scale'' (scale_init m) [last (shape x)] NotPassed = Inr (sc, ps')"
      using call g n True sx by (auto simp: RMSNorm_call_unfold split: sum.splits if_splits)
    have ssc: "shape sc = [last (shape n)]"
      using param_shape [OF p] init [OF True] sn by simp
    define sc' where "sc' = (if scale_plus_one m then scalar_add E 1 sc else sc)"
    have ssc': "shape sc' = [last (shape n)]"
      using ssc by (simp add: sc'_def scalar_add_def map_tensor_def)
    have ex: "(if scale_plus_one m
                then scalar_add E 1 (expand_dims_leading (length (shape x') - 1) sc)
                else expand_dims_leading (length (shape x') - 1) sc)
              = sc'\<lparr>shape := replicate (length (shape n) - 1) 1 @ shape sc'\<rparr>"
      by (simp add: sc'_def scalar_add_def map_tensor_def expand_dims_leading_def sx sn
          del: One_nat_def)
    have nn: "shape n \<noteq> []" using ne sn by simp
    have bc: "bc_dims (shape n) (replicate (length (shape n) - 1) 1 @ [last (shape n)]) = Some (shape n)"
      using bc_dims_leading_ones [of "butlast (shape n)" "last (shape n)"] nn by simp
    have "y = \<lparr>dtype = promote_types E (dtype n) (dtype sc'), shape = shape n,
                data = bc_data (el_mul E) (shape n)
                         (replicate (length (shape n) - 1) 1 @ [last (shape n)]) (data n) (data sc')\<rparr>"
      using call g n True p sx
      by (simp add: RMSNorm_call_unfold ex scale_multiply [OF nn ssc'] del: One_nat_def)
    moreover have "length (bc_data (el_mul E) (shape n)
                         (replicate (length (shape n) - 1) 1 @ [last (shape n)]) (data n) (data sc'))
                     = prod_list (shape n)"
      by (rule length_bc_data [OF bc])
    ultimately show ?thesis
      using sn by (simp add: wf_tensor_def del: One_nat_def)
  qed
qed


lemma rsqrt_operand_ok:
  assumes "shape x \<noteq> []"
  shows "rsqrt_operand E x =
           Inr \<lparr>dtype = weak_float_type E (mean_type E (square_type E (dtype x))),
                shape = butlast (shape x) @ [1],
                data = map (\<lambda>i. el_add E
                                 (el_mean E (chunk (last (shape x)) i (map (el_square E (dtype x)) (data x))))
                                 (el_lit E (1 / 1000000)))
                           [0 ..< prod_list (butlast (shape x))]\<rparr>"
  using assms
  by (simp add: rsqrt_operand_def jnp_mean_last_def jnp_square_def map_tensor_def add_scalar_def
      comp_def)

lemma rms_formula_operand:
  "rms_formula E x =
     (case rsqrt_operand E x of
        Inl e \<Rightarrow> Inl e
      | Inr a \<Rightarrow> jnp_multiply E x (lax_rsqrt E a))"
  by (simp add: rms_formula_def rsqrt_operand_def split: sum.splits)

lemma RMSNorm_call_steps:
  "RMSNorm_call E ph m ps x0 =
     (case (if guard_against_excess_precision m then reduce_precision E x0 else Inr x0) of
        Inl e \<Rightarrow> Inl e
      | Inr x \<Rightarrow>
     (case rsqrt_operand E x of
        Inl e \<Rightarrow> Inl e
      | Inr a \<Rightarrow>
     (case jnp_multiply E x (lax_rsqrt E a) of
        Inl e \<Rightarrow> Inl e
      | Inr n \<Rightarrow> scale_step E ph m ps x n)))"
  by (simp add: RMSNorm_call_def rsqrt_operand_def scale_step_def split: sum.splits)

lemma rsqrt_operand_bound_aux:
  assumes sq: "\<forall>d v. is_floating d \<and> \<not> el_is_nan E v \<longrightarrow> el_le E (el_lit E 0) (el_square E d v)"
    and mean: "\<forall>vs. vs \<noteq> [] \<and> (\<forall>v \<in> set vs. el_le E (el_lit E 0) v)
                 \<longrightarrow> el_le E (el_lit E 0) (el_mean E vs)"
    and add: "\<forall>v. el_le E (el_lit E 0) v
                 \<longrightarrow> el_le E (el_lit E (1 / 1000000)) (el_add E v (el_lit E (1 / 1000000)))"
    and wf: "wf_tensor x"
    and rank: "shape x \<noteq> []"
    and nonempty: "last (shape x) \<noteq> 0"
    and fl: "is_floating (dtype x)"
    and real: "\<forall>v \<in> set (data x). \<not> el_is_nan E v"
  shows "\<exists>a. rsqrt_operand E x = Inr a \<and>
             (\<forall>v \<in> set (data a). el_le E (el_lit E (1 / 1000000)) v)"
proof -
  let ?d = "last (shape x)"
  let ?n = "prod_list (butlast (shape x))"
  let ?a = "\<lparr>dtype = weak_float_type E (mean_type E (square_type E (dtype x))),
                shape = butlast (shape x) @ [1],
                data = map (\<lambda>i. el_add E
                                 (el_mean E (chunk ?d i (map (el_square E (dtype x)) (data x))))
                                 (el_lit E (1 / 1000000)))
                           [0 ..< ?n]\<rparr>"
  have a: "rsqrt_operand E x = Inr ?a" by (rule rsqrt_operand_ok [OF rank])
  have len: "length (map (el_square E (dtype x)) (data x)) = ?n * ?d"
    using wf prod_list_split_last [OF rank] by (simp add: wf_tensor_def)
  have elem: "el_le E (el_lit E (1 / 1000000))
                (el_add E (el_mean E (chunk ?d i (map (el_square E (dtype x)) (data x)))) (el_lit E (1 / 1000000)))"
    if i: "i < ?n" for i
  proof -
    let ?c = "chunk ?d i (map (el_square E (dtype x)) (data x))"
    have "(i + 1) * ?d \<le> ?n * ?d" using i by (intro mult_le_mono1) simp
    then have "length ?c = ?d" using len by (intro chunk_length) simp
    then have ne: "?c \<noteq> []" using nonempty by auto
    have "el_le E (el_lit E 0) v" if "v \<in> set ?c" for v
    proof -
      from that set_chunk have "v \<in> set (map (el_square E (dtype x)) (data x))" by fastforce
      then obtain u where "u \<in> set (data x)" and "v = el_square E (dtype x) u" by auto
      then show ?thesis using sq real fl by blast
    qed
    with ne mean have "el_le E (el_lit E 0) (el_mean E ?c)" by blast
    with add show ?thesis by blast
  qed
  have bound: "\<forall>v \<in> set (data ?a). el_le E (el_lit E (1 / 1000000)) v"
    using elem by auto
  from a bound show ?thesis by blast
qed

lemma guard_step:
  assumes rp: "\<forall>ne nm v. \<not> el_is_nan E v \<longrightarrow> \<not> el_is_nan E (el_reduce_precision E ne nm v)"
    and fl: "is_floating (dtype x)"
    and real: "\<forall>v \<in> set (data x). \<not> el_is_nan E v"
  shows "\<exists>x'. (if guard_against_excess_precision m then reduce_precision E x else Inr x) = Inr x' \<and>
              dtype x' = dtype x \<and> shape x' = shape x \<and> length (data x') = length (data x) \<and>
              (\<forall>v \<in> set (data x'). \<not> el_is_nan E v)"
proof (cases "guard_against_excess_precision m")
  case False
  then show ?thesis using real by simp
next
  case True
  have "\<exists>ne nm. reduce_precision E x = Inr (map_tensor (el_reduce_precision E ne nm) (dtype x) x)"
    using fl by (cases "dtype x") (auto simp: reduce_precision_def lax_reduce_precision_def)
  then obtain ne nm where
    r: "reduce_precision E x = Inr (map_tensor (el_reduce_precision E ne nm) (dtype x) x)"
    by blast
  have "\<forall>v \<in> set (data (map_tensor (el_reduce_precision E ne nm) (dtype x) x)). \<not> el_is_nan E v"
    using rp real by (auto simp: map_tensor_def)
  then show ?thesis using True r by (simp add: map_tensor_def)
qed

lemma Einsum_call_unfold:
  "Einsum_call E ph m ps eqn x =
     (case param ph ps (weight_name m) (initializer m) (es_shape m) (Passed (es_dtype m)) of
        Inl e \<Rightarrow> Inl e
      | Inr (w, ps') \<Rightarrow>
          map_sum id (\<lambda>y. (y, ps'))
            (jnp_einsum E eqn x
               (if truthy (w_scale m) then mul_scalar E w (the (w_scale m)) else w)))"
proof -
  have dt: "(case es_dtype m of Some d \<Rightarrow> Some d | None \<Rightarrow> None) = es_dtype m"
    by (cases "es_dtype m") simp_all
  show ?thesis
    by (simp add: Einsum_call_def dt split: sum.splits prod.splits)
qed

lemma rms_formula_rows:
  assumes wf: "wf_tensor x" and rank: "shape x \<noteq> []"
  shows "rms_formula E x =
           Inr \<lparr>dtype = promote_types E (dtype x) (weak_float_type E (mean_type E (square_type E (dtype x)))),
                shape = shape x, data = rms_rows E x\<rparr>"
proof -
  let ?d = "last (shape x)"
  let ?n = "prod_list (butlast (shape x))"
  let ?h = "\<lambda>i. el_rsqrt E (el_add E (el_mean E (chunk ?d i (map (el_square E (dtype x)) (data x))))
                                 (el_lit E (1 / 1000000)))"
  have s: "shape x = butlast (shape x) @ [?d]" using rank by simp
  have lx: "length (data x) = ?n * ?d"
    using wf prod_list_split_last [OF rank] by (simp add: wf_tensor_def)
  have "bc_data (el_mul E) (butlast (shape x) @ [?d]) (butlast (shape x) @ [1]) (data x)
           (map ?h [0 ..< ?n])
        = concat (map (\<lambda>i. map (\<lambda>v. el_mul E v (map ?h [0 ..< ?n] ! i)) (chunk ?d i (data x)))
                      [0 ..< ?n])"
    by (rule bc_data_rows [OF lx]) simp
  also have "\<dots> = rms_rows E x"
    unfolding rms_rows_def
  proof (rule arg_cong [where f = concat], rule map_cong [OF refl])
    fix i assume "i \<in> set [0 ..< ?n]"
    then have "i < ?n" by simp
    then show "map (\<lambda>v. el_mul E v (map ?h [0 ..< ?n] ! i)) (chunk ?d i (data x))
        = (let row = chunk ?d i (data x)
           in map (\<lambda>v. el_mul E v
                    (el_rsqrt E (el_add E (el_mean E (map (el_square E (dtype x)) row))
                                          (el_lit E (1 / 1000000))))) row)"
      by (simp add: chunk_map Let_def)
  qed
  finally have "bc_data (el_mul E) (shape x) (butlast (shape x) @ [1]) (data x) (map ?h [0 ..< ?n])
                 = rms_rows E x"
    using s by simp
  then show ?thesis
    by (simp add: rms_formula_ok [OF rank])
qed

subsection \<open>Laws of the extended reals\<close>

lemma xr_mul_one: "xr_mul v (Fin 1) = v"
  by (cases v) (simp_all add: inf_of_sign_def)


lemma xr_nonneg_cases: "xr_le (Fin 0) v \<longleftrightarrow> v = PInf \<or> (\<exists>r. 0 \<le> r \<and> v = Fin r)"
  by (cases v) simp_all

lemma xr_add_nonneg: "xr_le (Fin 0) a \<Longrightarrow> xr_le (Fin 0) b \<Longrightarrow> xr_le (Fin 0) (xr_add a b)"
  by (auto simp: xr_nonneg_cases)

lemma xr_foldl_nonneg:
  "xr_le (Fin 0) acc \<Longrightarrow> \<forall>v \<in> set vs. xr_le (Fin 0) v \<Longrightarrow> xr_le (Fin 0) (foldl xr_add acc vs)"
  by (induction vs arbitrary: acc) (simp_all add: xr_add_nonneg)

lemma xr_mean_nonneg:
  assumes "vs \<noteq> []" and "\<forall>v \<in> set vs. xr_le (Fin 0) v"
  shows "xr_le (Fin 0) (xr_mean vs)"
proof -
  have "xr_le (Fin 0) (foldl xr_add (Fin 0) vs)"
    using assms(2) by (intro xr_foldl_nonneg) simp_all
  then show ?thesis
    using assms(1) by (auto simp: xr_mean_def xr_nonneg_cases)
qed

lemma xr_square_nonneg: "v \<noteq> NaN \<Longrightarrow> xr_le (Fin 0) (xr_mul v v)"
  by (cases v) simp_all

lemma xr_add_eps: "xr_le (Fin 0) v \<Longrightarrow> xr_le (Fin c) (xr_add v (Fin c))"
  by (auto simp: xr_nonneg_cases)

lemma to_inexact_idem: "to_inexact (to_inexact d) = to_inexact d"
  by (cases d) simp_all

subsection \<open>Rounding to a format\<close>

lemma pow2_powr: "pow2 k = 2 powr real_of_int k"
  by (simp add: pow2_def powr_int)

lemma pow2_pos: "0 < pow2 k"
  by (simp add: pow2_powr)

lemma pow2_add: "pow2 (a + b) = pow2 a * pow2 b"
  by (simp add: pow2_powr powr_add)

lemma pow2_nat: "pow2 (int n) = 2 ^ n"
  by (simp add: pow2_def)

lemma pow2_mono: "a \<le> b \<Longrightarrow> pow2 a \<le> pow2 b"
  by (simp add: pow2_powr)

lemma binade_bounds:
  assumes "v \<noteq> 0"
  shows "pow2 \<lfloor>log 2 \<bar>v\<bar>\<rfloor> \<le> \<bar>v\<bar>" and "\<bar>v\<bar> < pow2 (\<lfloor>log 2 \<bar>v\<bar>\<rfloor> + 1)"
  using assms floor_log_eq_powr_iff [of "\<bar>v\<bar>" 2 "\<lfloor>log 2 \<bar>v\<bar>\<rfloor>"]
  by (simp_all add: pow2_powr)

lemma binade_eq:
  assumes "pow2 k \<le> \<bar>v\<bar>" and "\<bar>v\<bar> < pow2 (k + 1)"
  shows "\<lfloor>log 2 \<bar>v\<bar>\<rfloor> = k"
proof -
  have "0 < \<bar>v\<bar>" using assms(1) pow2_pos [of k] by linarith
  then show ?thesis
    using assms floor_log_eq_powr_iff [of "\<bar>v\<bar>" 2 k] by (simp add: pow2_powr)
qed

lemma binade_le: "v \<noteq> 0 \<Longrightarrow> \<bar>v\<bar> < pow2 (k + 1) \<Longrightarrow> \<lfloor>log 2 \<bar>v\<bar>\<rfloor> \<le> k"
proof (rule ccontr)
  assume v: "v \<noteq> 0" and lt: "\<bar>v\<bar> < pow2 (k + 1)" and "\<not> \<lfloor>log 2 \<bar>v\<bar>\<rfloor> \<le> k"
  then have "k + 1 \<le> \<lfloor>log 2 \<bar>v\<bar>\<rfloor>" by simp
  then have "pow2 (k + 1) \<le> pow2 \<lfloor>log 2 \<bar>v\<bar>\<rfloor>" by (rule pow2_mono)
  also have "\<dots> \<le> \<bar>v\<bar>" using binade_bounds(1) [OF v] .
  finally show False using lt by simp
qed

lemma round_even_int: "round_even (of_int m) = m"
  by (simp add: round_even_def)

lemma round_even_bounds: "\<lfloor>x\<rfloor> \<le> round_even x" "round_even x \<le> \<lceil>x\<rceil>"
proof -
  show "\<lfloor>x\<rfloor> \<le> round_even x" by (simp add: round_even_def)
  show "round_even x \<le> \<lceil>x\<rceil>"
  proof (cases "x = of_int \<lfloor>x\<rfloor>")
    case True
    then have "round_even x = \<lfloor>x\<rfloor>" by (simp add: round_even_def)
    then show ?thesis by (simp add: floor_le_ceiling)
  next
    case False
    then have "\<lceil>x\<rceil> = \<lfloor>x\<rfloor> + 1"
      by (metis ceiling_altdef)
    then show ?thesis by (simp add: round_even_def)
  qed
qed

lemma round_even_abs_le:
  assumes "\<bar>x\<bar> < of_int n"
  shows "\<bar>round_even x\<bar> \<le> n"
proof -
  have "- of_int n < x" and "x < of_int n" using assms by auto
  then have "- n \<le> \<lfloor>x\<rfloor>" and "\<lceil>x\<rceil> \<le> n"
    by (simp_all add: le_floor_iff ceiling_le_iff)
  then show ?thesis using round_even_bounds [of x] by linarith
qed

lemma round_format_grid:
  assumes "r \<noteq> 0"
    and "r / pow2 (max \<lfloor>log 2 \<bar>r\<bar>\<rfloor> (2 - 2 ^ (nexp - 1)) - int nmant) = of_int j"
    and "\<bar>r\<bar> < 2 ^ (2 ^ (nexp - 1))"
  shows "round_format nexp nmant r = Fin r"
proof -
  let ?q = "pow2 (max \<lfloor>log 2 \<bar>r\<bar>\<rfloor> (2 - 2 ^ (nexp - 1)) - int nmant)"
  have q: "?q \<noteq> 0" using pow2_pos [of "max \<lfloor>log 2 \<bar>r\<bar>\<rfloor> (2 - 2 ^ (nexp - 1)) - int nmant"] by simp
  have "of_int (round_even (r / ?q)) * ?q = of_int j * ?q"
    by (simp only: assms(2) round_even_int)
  also have "\<dots> = r / ?q * ?q" by (simp only: assms(2))
  also have "\<dots> = r" using q by simp
  finally have again: "of_int (round_even (r / ?q)) * ?q = r" .
  show ?thesis
    unfolding round_format_def Let_def again using assms(1,3) by simp
qed

lemma round_format_fixed:
  assumes "round_format nexp nmant v = Fin r"
  shows "round_format nexp nmant r = Fin r"
proof (cases "r = 0")
  case True
  then show ?thesis by (simp add: round_format_def)
next
  case r0: False
  then have v0: "v \<noteq> 0" using assms by (auto simp: round_format_def)
  define emin :: int where "emin = 2 - 2 ^ (nexp - 1)"
  define e where "e = max \<lfloor>log 2 \<bar>v\<bar>\<rfloor> emin"
  define q where "q = pow2 (e - int nmant)"
  define m where "m = round_even (v / q)"
  have q0: "0 < q" by (simp add: q_def pow2_pos)
  have res: "r = of_int m * q" and small: "\<bar>r\<bar> < 2 ^ (2 ^ (nexp - 1))"
    using assms v0
    by (auto simp: round_format_def Let_def emin_def e_def q_def m_def inf_of_sign_def
        split: if_splits)
  have m0: "m \<noteq> 0" using r0 res by auto
  have "\<bar>v\<bar> < pow2 (\<lfloor>log 2 \<bar>v\<bar>\<rfloor> + 1)" by (rule binade_bounds(2) [OF v0])
  also have "\<dots> \<le> pow2 (e + 1)" by (rule pow2_mono) (simp add: e_def)
  finally have vlt: "\<bar>v\<bar> < pow2 (e + 1)" .
  have split: "pow2 (e + 1) = 2 ^ (nmant + 1) * q"
  proof -
    have "e + 1 = int (nmant + 1) + (e - int nmant)" by simp
    then have "pow2 (e + 1) = pow2 (int (nmant + 1)) * pow2 (e - int nmant)"
      by (simp only: pow2_add)
    then show ?thesis by (simp only: pow2_nat q_def)
  qed
  have "\<bar>v / q\<bar> = \<bar>v\<bar> / q" using q0 by simp
  also have "\<dots> < 2 ^ (nmant + 1)"
    using vlt q0 by (simp add: split pos_divide_less_eq)
  finally have "\<bar>v / q\<bar> < of_int (2 ^ (nmant + 1))" by simp
  then have mle: "\<bar>m\<bar> \<le> 2 ^ (nmant + 1)"
    unfolding m_def by (rule round_even_abs_le)
  have absr: "\<bar>r\<bar> = of_int \<bar>m\<bar> * q" using q0 by (simp add: res abs_mult)
  define e' where "e' = max \<lfloor>log 2 \<bar>r\<bar>\<rfloor> emin"
  have emin_le: "emin \<le> e" by (simp add: e_def)
  have "\<exists>j. r / pow2 (e' - int nmant) = of_int j"
  proof (cases "\<bar>m\<bar> < 2 ^ (nmant + 1)")
    case True
    then have "(of_int \<bar>m\<bar> :: real) < of_int (2 ^ (nmant + 1))"
      by (simp only: of_int_less_iff)
    then have "(of_int \<bar>m\<bar> :: real) < 2 ^ (nmant + 1)" by simp
    then have "of_int \<bar>m\<bar> * q < 2 ^ (nmant + 1) * q"
      using q0 by (simp only: mult_less_cancel_right_pos)
    then have "\<bar>r\<bar> < pow2 (e + 1)" by (simp only: absr split)
    then have "\<lfloor>log 2 \<bar>r\<bar>\<rfloor> \<le> e" by (rule binade_le [OF r0])
    then have le: "e' \<le> e" using emin_le by (simp add: e'_def)
    have "e - int nmant = int (nat (e - e')) + (e' - int nmant)" using le by simp
    then have "q = pow2 (int (nat (e - e'))) * pow2 (e' - int nmant)"
      unfolding q_def by (simp only: pow2_add)
    then have "q = 2 ^ nat (e - e') * pow2 (e' - int nmant)" by (simp only: pow2_nat)
    then have "r / pow2 (e' - int nmant) = of_int m * 2 ^ nat (e - e')"
      using pow2_pos [of "e' - int nmant"] by (simp add: res)
    also have "\<dots> = of_int (m * 2 ^ nat (e - e'))" by simp
    finally show ?thesis by blast
  next
    case False
    with mle have meq: "\<bar>m\<bar> = 2 ^ (nmant + 1)" by simp
    then have req: "\<bar>r\<bar> = pow2 (e + 1)" by (simp add: absr split)
    have "pow2 (e + 1) < pow2 (e + 1 + 1)"
      by (simp add: pow2_powr)
    then have "\<lfloor>log 2 \<bar>r\<bar>\<rfloor> = e + 1"
      by (intro binade_eq) (simp_all add: req)
    then have e': "e' = e + 1" using emin_le by (simp add: e'_def)
    have "e + 1 - int nmant = 1 + (e - int nmant)" by simp
    then have "pow2 (e' - int nmant) = pow2 1 * q"
      unfolding e' q_def by (simp only: pow2_add)
    then have q': "pow2 (e' - int nmant) = 2 * q" by (simp add: pow2_def)
    have "m = 2 * (m div 2)"
    proof -
      have "even \<bar>m\<bar>" by (simp add: meq)
      then have "even m" by simp
      then show ?thesis by simp
    qed
    then have "of_int m = 2 * (of_int (m div 2) :: real)"
      by (metis of_int_mult of_int_numeral)
    then have "r / pow2 (e' - int nmant) = of_int (m div 2)"
      using q0 by (simp add: res q')
    then show ?thesis by blast
  qed
  then obtain j where "r / pow2 (max \<lfloor>log 2 \<bar>r\<bar>\<rfloor> (2 - 2 ^ (nexp - 1)) - int nmant) = of_int j"
    unfolding e'_def emin_def by blast
  with r0 show ?thesis using small by (rule round_format_grid)
qed

text \<open>A value of the format is its own rounding, so rounding twice is rounding once.\<close>

lemma round_format_cases:
  "(\<exists>r. round_format nexp nmant v = Fin r) \<or> round_format nexp nmant v = PInf
     \<or> round_format nexp nmant v = NInf"
  by (cases "0 < v"; cases "v < 0") (simp_all add: round_format_def Let_def inf_of_sign_def)

lemma round_format_not_nan: "round_format nexp nmant v \<noteq> NaN"
  using round_format_cases [of nexp nmant v] by auto

lemma xr_reduce_precision_idem:
  "xr_reduce_precision nexp nmant (xr_reduce_precision nexp nmant v) = xr_reduce_precision nexp nmant v"
proof (cases v)
  case (Fin a)
  then show ?thesis
    using round_format_cases [of nexp nmant a] round_format_fixed [of nexp nmant a]
    by auto
qed simp_all

lemma xr_reduce_precision_not_nan: "v \<noteq> NaN \<Longrightarrow> xr_reduce_precision nexp nmant v \<noteq> NaN"
  by (cases v) (simp_all add: round_format_not_nan)

lemma round_format_eval:
  assumes "pow2 k \<le> \<bar>v\<bar>" and "\<bar>v\<bar> < pow2 (k + 1)"
    and "2 - 2 ^ (nexp - 1) \<le> k"
    and "round_even (v / pow2 (k - int nmant)) = m"
    and "\<bar>of_int m * pow2 (k - int nmant)\<bar> < 2 ^ (2 ^ (nexp - 1))"
  shows "round_format nexp nmant v = Fin (of_int m * pow2 (k - int nmant))"
proof -
  have v0: "v \<noteq> 0" using assms(1) pow2_pos [of k] by auto
  have e: "max \<lfloor>log 2 \<bar>v\<bar>\<rfloor> (2 - 2 ^ (nexp - 1)) = k"
    using binade_eq [OF assms(1,2)] assms(3) by simp
  show ?thesis
    unfolding round_format_def Let_def e assms(4) using v0 assms(5) by simp
qed

lemma round_format_overflow:
  assumes "pow2 k \<le> \<bar>v\<bar>" and "\<bar>v\<bar> < pow2 (k + 1)"
    and "2 - 2 ^ (nexp - 1) \<le> k"
    and "round_even (v / pow2 (k - int nmant)) = m"
    and "2 ^ (2 ^ (nexp - 1)) \<le> \<bar>of_int m * pow2 (k - int nmant)\<bar>"
  shows "round_format nexp nmant v = inf_of_sign v"
proof -
  have v0: "v \<noteq> 0" using assms(1) pow2_pos [of k] by auto
  have e: "max \<lfloor>log 2 \<bar>v\<bar>\<rfloor> (2 - 2 ^ (nexp - 1)) = k"
    using binade_eq [OF assms(1,2)] assms(3) by simp
  show ?thesis
    unfolding round_format_def Let_def e assms(4) using v0 assms(5) by simp
qed


subsection \<open>Values of the roundings\<close>

text \<open>
  The rounding at work: a tie goes to the even mantissa, a value above the middle goes
  up, a value beyond the range of \<open>float16\<close> becomes infinite, and \<open>1 / 3\<close> has a
  \<open>float32\<close> neighbour.
\<close>

lemma round_format_samples:
  "round_format 8 7 (257 / 256) = Fin 1 \<and>
   round_format 8 7 (259 / 256) = Fin (65 / 64) \<and>
   round_format 5 10 70000 = PInf \<and>
   round_format 8 23 (1 / 3) = Fin (11184811 / 33554432)"
proof -
  have a: "round_format 8 7 (257 / 256) = Fin 1"
    using round_format_eval [of 0 "257 / 256" 8 7 128] by (simp add: pow2_def round_even_def)
  have b: "round_format 8 7 (259 / 256) = Fin (65 / 64)"
    using round_format_eval [of 0 "259 / 256" 8 7 130] by (simp add: pow2_def round_even_def)
  have c: "round_format 5 10 70000 = PInf"
    using round_format_overflow [of 16 70000 5 10 1094]
    by (simp add: pow2_def round_even_def inf_of_sign_def)
  have d: "round_format 8 23 (1 / 3) = Fin (11184811 / 33554432)"
    using round_format_eval [of "-2" "1 / 3" 8 23 11184811] by (simp add: pow2_def round_even_def)
  from a b c d show ?thesis by simp
qed

lemma round_format_bf16_row: "round_format 8 7 3 = Fin 3" "round_format 8 7 4 = Fin 4"
  using round_format_eval [of 1 3 8 7 192] round_format_eval [of 2 4 8 7 128]
  by (simp_all add: pow2_def round_even_def)

lemma reduce_precision_bf16_row: "reduce_precision xr_engine bf16_row = Inr bf16_row"
  by (simp add: reduce_precision_def lax_reduce_precision_def map_tensor_def bf16_row_def
      xr_engine_def round_format_bf16_row)

lemma xr_square_floating_nonneg:
  "is_floating d \<Longrightarrow> v \<noteq> NaN \<Longrightarrow> xr_le (Fin 0) (xr_square d v)"
  by (cases d) (simp_all add: xr_square_nonneg)

lemma f32_idem: "f32 (f32 v) = f32 v"
  by (simp add: f32_def xr_reduce_precision_idem)

lemma f32_values:
  "f32 (Fin 0) = Fin 0"
  "f32 (Fin 1) = Fin 1"
  "f32 (Fin 3) = Fin 3"
  "f32 (Fin (8388609 / 8388608)) = Fin (8388609 / 8388608)"
  "f32 (Fin (25165827 / 8388608)) = Fin (6291457 / 2097152)"
  "f32 (Fin (52776572813313 / 17592186044416)) = Fin (3145729 / 1048576)"
  "f32 (Fin (3145729 / 1048576)) = Fin (3145729 / 1048576)"
  "f32 (Fin (70368760954881 / 70368744177664)) = Fin (4194305 / 4194304)"
  "f32 (Fin (4194305 / 4194304)) = Fin (4194305 / 4194304)"
  "f32 (Fin (12582915 / 4194304)) = Fin (12582915 / 4194304)"
proof -
  show "f32 (Fin 0) = Fin 0" by (simp add: f32_def round_format_def)
  show "f32 (Fin 1) = Fin 1"
    using round_format_eval [of 0 1 8 23 8388608] by (simp add: f32_def pow2_def round_even_def)
  show "f32 (Fin 3) = Fin 3"
    using round_format_eval [of 1 3 8 23 12582912] by (simp add: f32_def pow2_def round_even_def)
  show "f32 (Fin (8388609 / 8388608)) = Fin (8388609 / 8388608)"
    using round_format_eval [of 0 "8388609 / 8388608" 8 23 8388609]
    by (simp add: f32_def pow2_def round_even_def)
  show "f32 (Fin (25165827 / 8388608)) = Fin (6291457 / 2097152)"
    using round_format_eval [of 1 "25165827 / 8388608" 8 23 12582914]
    by (simp add: f32_def pow2_def round_even_def)
  show "f32 (Fin (52776572813313 / 17592186044416)) = Fin (3145729 / 1048576)"
    using round_format_eval [of 1 "52776572813313 / 17592186044416" 8 23 12582916]
    by (simp add: f32_def pow2_def round_even_def)
  show "f32 (Fin (3145729 / 1048576)) = Fin (3145729 / 1048576)"
    using round_format_eval [of 1 "3145729 / 1048576" 8 23 12582916]
    by (simp add: f32_def pow2_def round_even_def)
  show "f32 (Fin (70368760954881 / 70368744177664)) = Fin (4194305 / 4194304)"
    using round_format_eval [of 0 "70368760954881 / 70368744177664" 8 23 8388610]
    by (simp add: f32_def pow2_def round_even_def)
  show "f32 (Fin (4194305 / 4194304)) = Fin (4194305 / 4194304)"
    using round_format_eval [of 0 "4194305 / 4194304" 8 23 8388610]
    by (simp add: f32_def pow2_def round_even_def)
  show "f32 (Fin (12582915 / 4194304)) = Fin (12582915 / 4194304)"
    using round_format_eval [of 1 "12582915 / 4194304" 8 23 12582915]
    by (simp add: f32_def pow2_def round_even_def)
qed

lemmas xr_eval =
  RMSNorm_call_def rms_formula_def jnp_mean_last_def jnp_square_def map_tensor_def
  jnp_multiply_def lax_rsqrt_def add_scalar_def scalar_add_def mul_scalar_def pad_shape_def
  chunk_def xr_mean_def shape_last_def param_def zeros_init_def expand_dims_leading_def
  reduce_precision_def lax_reduce_precision_def inf_of_sign_def xr_engine_def
  Einsum_call_def inner_einsum_def wf_tensor_def rsqrt_operand_def

lemmas f32_eval =
  Einsum_call_def param_def mul_scalar_def map_tensor_def f32_engine_def f32_inner_einsum_def
  f32_weight_def f32_vector_def sample_einsum_def zeros_init_def jax_promote_types_def

subsection \<open>RMSNorm\<close>

text \<open>
  C1. With the learned scale and the precision guard both off, a call computes
  \<^verbatim>\<open>x * rsqrt(mean(x^2, axis=-1, keepdims=True) + 1e-6)\<close>, the constant being exactly
  \<open>1 / 1000000\<close>, fails where that expression fails (a rank-0 input) and leaves the
  parameters as they were. On a well-formed input with at least one axis the
  expression is the input's shape filled block by block: each element times the
  reciprocal square root of the mean of the squares of its block plus \<open>1 / 1000000\<close>.
\<close>

theorem RMSNorm_unscaled_formula:
  "RMSNorm_call E ph (m\<lparr>with_scale := False, guard_against_excess_precision := False\<rparr>) ps x
     = map_sum id (\<lambda>y. (y, ps)) (rms_formula E x) \<and>
   (wf_tensor x \<and> shape x \<noteq> [] \<longrightarrow>
      rms_formula E x =
        Inr \<lparr>dtype = promote_types E (dtype x) (weak_float_type E (mean_type E (square_type E (dtype x)))),
             shape = shape x, data = rms_rows E x\<rparr>)"
proof -
  have "RMSNorm_call E ph (m\<lparr>with_scale := False, guard_against_excess_precision := False\<rparr>) ps x
     = map_sum id (\<lambda>y. (y, ps)) (rms_formula E x)"
    by (simp add: RMSNorm_call_def rms_formula_def split: sum.splits)
  then show ?thesis using rms_formula_rows [of x E] by blast
qed

theorem RMSNorm_unscaled_formula_witness:
  "wf_tensor sample_input \<and> shape sample_input \<noteq> [] \<and>
   RMSNorm_call xr_engine Initializing (sample_norm\<lparr>with_scale := False, guard_against_excess_precision := False\<rparr>)
       Map.empty sample_input
     = Inr (\<lparr>dtype = Float32, shape = [2, 3],
             data = [Fin (3 / sqrt (25000003 / 3000000)), Fin (4 / sqrt (25000003 / 3000000)), Fin 0,
                     Fin (1 / sqrt (1000001 / 1000000)), Fin (1 / sqrt (1000001 / 1000000)),
                     Fin (1 / sqrt (1000001 / 1000000))]\<rparr>, Map.empty)"
proof -
  have wf: "wf_tensor sample_input" by (simp add: wf_tensor_def sample_input_def)
  have rank: "shape sample_input \<noteq> []" by (simp add: sample_input_def)
  have rows: "rms_rows xr_engine sample_input
                = [Fin (3 / sqrt (25000003 / 3000000)), Fin (4 / sqrt (25000003 / 3000000)), Fin 0,
                   Fin (1 / sqrt (1000001 / 1000000)), Fin (1 / sqrt (1000001 / 1000000)),
                   Fin (1 / sqrt (1000001 / 1000000))]"
    by (simp add: rms_rows_def sample_input_def xr_engine_def chunk_def xr_mean_def eval_nat_numeral)
  have ty: "promote_types xr_engine (dtype sample_input)
              (weak_float_type xr_engine (mean_type xr_engine (square_type xr_engine (dtype sample_input))))
                = Float32"
    by (simp add: xr_engine_def sample_input_def jax_promote_types_def)
  have sh: "shape sample_input = [2, 3]" by (simp add: sample_input_def)
  from RMSNorm_unscaled_formula [of xr_engine Initializing sample_norm Map.empty sample_input] wf rank
  show ?thesis by (simp add: rows ty sh)
qed

text \<open>
  C2. For every configuration and every input, an output that a call returns has the
  shape of the input and as many elements as that shape holds. A call returns an
  output exactly when the input has at least one axis, is of a floating type if the
  precision guard is on, and, if the scale is on, a stored scale has the length of the
  last axis and a scale that is not stored can be created (the parameters are being
  initialised); otherwise it raises. The initializer is assumed to return the shape it
  is asked for. The input is a value: no operation changes it.
\<close>

theorem RMSNorm_call_shape:
  assumes "with_scale m \<Longrightarrow> shape (scale_init m [last (shape x)] NotPassed) = [last (shape x)]"
  shows "(\<forall>y ps'. RMSNorm_call E ph m ps x = Inr (y, ps') \<longrightarrow> shape y = shape x \<and> wf_tensor y) \<and>
         ((\<exists>y ps'. RMSNorm_call E ph m ps x = Inr (y, ps')) \<longleftrightarrow>
            shape x \<noteq> [] \<and>
            (guard_against_excess_precision m \<longrightarrow> is_floating (dtype x)) \<and>
            (with_scale m \<longrightarrow> (\<forall>w. ps ''scale'' = Some w \<longrightarrow> shape w = [last (shape x)])) \<and>
            (with_scale m \<and> ps ''scale'' = None \<longrightarrow> ph = Initializing))"
proof -
  have A: "\<forall>y ps'. RMSNorm_call E ph m ps x = Inr (y, ps') \<longrightarrow> shape y = shape x \<and> wf_tensor y"
    using call_shape_aux [OF assms] by blast
  have B: "shape x \<noteq> [] \<and>
            (guard_against_excess_precision m \<longrightarrow> is_floating (dtype x)) \<and>
            (with_scale m \<longrightarrow> (\<forall>w. ps ''scale'' = Some w \<longrightarrow> shape w = [last (shape x)])) \<and>
            (with_scale m \<and> ps ''scale'' = None \<longrightarrow> ph = Initializing)"
    if "\<exists>y ps'. RMSNorm_call E ph m ps x = Inr (y, ps')"
  proof -
  from that obtain y ps' where call: "RMSNorm_call E ph m ps x = Inr (y, ps')" by blast
  obtain x' where g: "(if guard_against_excess_precision m then reduce_precision E x else Inr x) = Inr x'"
    using call by (auto simp: RMSNorm_call_unfold split: sum.splits)
  have sx: "shape x' = shape x" and fl: "guard_against_excess_precision m \<longrightarrow> is_floating (dtype x)"
    using g reduce_precision_shape [of E x x'] by (auto split: if_splits)
  obtain n where n: "rms_formula E x' = Inr n"
    using call g by (auto simp: RMSNorm_call_unfold split: sum.splits)
  have ne: "shape x \<noteq> []" using rms_formula_shape [OF n] sx by simp
  have sw: "shape w = [last (shape x)]" if ws: "with_scale m" and w: "ps ''scale'' = Some w" for w
  proof -
    obtain sc where p: "param ph ps ''scale'' (scale_init m) [last (shape x)] NotPassed = Inr (sc, ps')"
      using call g n ws sx by (auto simp: RMSNorm_call_unfold split: sum.splits if_splits)
    then show ?thesis using w assms [OF ws] by (auto simp: param_def split: if_splits)
  qed
  have init: "ph = Initializing" if ws: "with_scale m" and w: "ps ''scale'' = None"
  proof -
    obtain sc where p: "param ph ps ''scale'' (scale_init m) [last (shape x)] NotPassed = Inr (sc, ps')"
      using call g n ws sx by (auto simp: RMSNorm_call_unfold split: sum.splits if_splits)
    then show ?thesis using w by (cases ph) (auto simp: param_def)
  qed
  from sw have sw': "with_scale m \<longrightarrow> (\<forall>w. ps ''scale'' = Some w \<longrightarrow> shape w = [last (shape x)])"
    by blast
  from init have init': "with_scale m \<and> ps ''scale'' = None \<longrightarrow> ph = Initializing"
    by blast
  from ne fl sw' init' show ?thesis
    by (intro conjI)
  qed
  have C: "\<exists>y ps'. RMSNorm_call E ph m ps x = Inr (y, ps')"
    if pre: "shape x \<noteq> [] \<and>
            (guard_against_excess_precision m \<longrightarrow> is_floating (dtype x)) \<and>
            (with_scale m \<longrightarrow> (\<forall>w. ps ''scale'' = Some w \<longrightarrow> shape w = [last (shape x)])) \<and>
            (with_scale m \<and> ps ''scale'' = None \<longrightarrow> ph = Initializing)"
  proof -
  obtain x' where g: "(if guard_against_excess_precision m then reduce_precision E x else Inr x) = Inr x'"
    and sx: "shape x' = shape x"
    using pre reduce_precision_cases [of x E] by (cases "guard_against_excess_precision m") auto
  have ne': "shape x' \<noteq> []" using pre sx by simp
  obtain n where n: "rms_formula E x' = Inr n" and sn: "shape n = shape x"
    using rms_formula_ok [OF ne'] sx by simp
  show ?thesis
  proof (cases "with_scale m")
    case False
    then show ?thesis using g n by (simp add: RMSNorm_call_unfold)
  next
    case True
    have "\<exists>sc ps'. param ph ps ''scale'' (scale_init m) [last (shape x)] NotPassed = Inr (sc, ps')"
    proof (cases "ps ''scale''")
      case None
      with pre True have "ph = Initializing" by simp
      with None show ?thesis by (simp add: param_def)
    next
      case (Some w)
      with pre True have "shape w = [last (shape x)]" by simp
      with Some assms [OF True] show ?thesis by (simp add: param_def)
    qed
    then obtain sc ps' where p: "param ph ps ''scale'' (scale_init m) [last (shape x)] NotPassed = Inr (sc, ps')"
      by blast
    have ssc: "shape sc = [last (shape n)]"
      using param_shape [OF p] assms [OF True] sn by simp
    define sc' where "sc' = (if scale_plus_one m then scalar_add E 1 sc else sc)"
    have ssc': "shape sc' = [last (shape n)]"
      using ssc by (simp add: sc'_def scalar_add_def map_tensor_def)
    have ex: "(if scale_plus_one m
                then scalar_add E 1 (expand_dims_leading (length (shape x') - 1) sc)
                else expand_dims_leading (length (shape x') - 1) sc)
              = sc'\<lparr>shape := replicate (length (shape n) - 1) 1 @ shape sc'\<rparr>"
      by (simp add: sc'_def scalar_add_def map_tensor_def expand_dims_leading_def sx sn
          del: One_nat_def)
    have nn: "shape n \<noteq> []" using pre sn by simp
    show ?thesis
      using g n True p sx
      by (simp add: RMSNorm_call_unfold ex scale_multiply [OF nn ssc'] del: One_nat_def)
  qed
qed
  have "(\<exists>y ps'. RMSNorm_call E ph m ps x = Inr (y, ps')) \<longleftrightarrow>
            shape x \<noteq> [] \<and>
            (guard_against_excess_precision m \<longrightarrow> is_floating (dtype x)) \<and>
            (with_scale m \<longrightarrow> (\<forall>w. ps ''scale'' = Some w \<longrightarrow> shape w = [last (shape x)])) \<and>
            (with_scale m \<and> ps ''scale'' = None \<longrightarrow> ph = Initializing)"
    using B C by (rule iffI)
  with A show ?thesis by (rule conjI)
qed

theorem RMSNorm_call_shape_witness:
  "with_scale sample_norm \<and>
   shape (scale_init sample_norm [last (shape sample_input)] NotPassed) = [last (shape sample_input)] \<and>
   (\<exists>y ps'. RMSNorm_call xr_engine Initializing sample_norm Map.empty sample_input = Inr (y, ps') \<and>
            shape y = [2, 3] \<and> wf_tensor y)"
proof -
  have h: "with_scale sample_norm \<Longrightarrow>
      shape (scale_init sample_norm [last (shape sample_input)] NotPassed) = [last (shape sample_input)]"
    by (simp add: sample_norm_def zeros_init_def)
  have w: "with_scale sample_norm" by (simp add: sample_norm_def)
  from RMSNorm_call_shape [OF h, of xr_engine Initializing Map.empty] h w show ?thesis
    by (auto simp: sample_input_def sample_norm_def)
qed







text \<open>
  C10, as stated, fails on an input whose last axis is empty: the mean over no
  elements is NaN, so \<^verbatim>\<open>rsqrt\<close> receives NaN, which is not at least \<open>1e-6\<close>.
\<close>

theorem rsqrt_operand_counterexample:
  "map_sum id data (rsqrt_operand xr_engine empty_rows) = Inr [NaN, NaN] \<and>
   \<not> el_le xr_engine (el_lit xr_engine (1 / 1000000)) NaN \<and>
   wf_tensor empty_rows"
  by (simp add: empty_rows_def xr_eval eval_nat_numeral)

text \<open>
  It fails on an integer input too: \<^verbatim>\<open>jnp.square\<close> squares in the array's integer
  type, the square of 46341 wraps around to a negative number, and so does the operand
  of \<^verbatim>\<open>rsqrt\<close>.
\<close>

lemma rsqrt_operand_int32_wraps:
  "map_sum id data (rsqrt_operand xr_engine int32_input) = Inr [Fin (- 2147479015 + 1 / 1000000)] \<and>
   \<not> el_le xr_engine (el_lit xr_engine (1 / 1000000)) (Fin (- 2147479015 + 1 / 1000000)) \<and>
   wf_tensor int32_input"
  by (simp add: int32_input_def xr_eval wrap_int_def eval_nat_numeral)

text \<open>
  C10, amended. For a well-formed input of a floating type with at least one axis, a
  non-empty last axis and no NaN element, in every configuration of the layer: the
  precision guard (when it is on) returns an array, the operand of \<^verbatim>\<open>rsqrt\<close> for
  that array exists and every element of it is at least the element \<open>1e-6\<close>, and the
  call is the product of that array with \<^verbatim>\<open>rsqrt\<close> of this operand, followed by the
  scale step. The laws used: the square of a non-NaN element in a floating type is
  non-negative, the mean of a non-empty list of non-negative elements is non-negative,
  a non-negative element plus \<open>1e-6\<close> is at least \<open>1e-6\<close>, and rounding a non-NaN
  element does not give NaN.
\<close>

theorem rsqrt_operand_bounded:
  assumes sq: "\<forall>d v. is_floating d \<and> \<not> el_is_nan E v \<longrightarrow> el_le E (el_lit E 0) (el_square E d v)"
    and mean: "\<forall>vs. vs \<noteq> [] \<and> (\<forall>v \<in> set vs. el_le E (el_lit E 0) v)
                 \<longrightarrow> el_le E (el_lit E 0) (el_mean E vs)"
    and add: "\<forall>v. el_le E (el_lit E 0) v
                 \<longrightarrow> el_le E (el_lit E (1 / 1000000)) (el_add E v (el_lit E (1 / 1000000)))"
    and rp: "\<forall>ne nm v. \<not> el_is_nan E v \<longrightarrow> \<not> el_is_nan E (el_reduce_precision E ne nm v)"
    and wf: "wf_tensor x"
    and rank: "shape x \<noteq> []"
    and nonempty: "last (shape x) \<noteq> 0"
    and fl: "is_floating (dtype x)"
    and real: "\<forall>v \<in> set (data x). \<not> el_is_nan E v"
  shows "\<exists>x' a. (if guard_against_excess_precision m then reduce_precision E x else Inr x) = Inr x' \<and>
             rsqrt_operand E x' = Inr a \<and>
             (\<forall>v \<in> set (data a). el_le E (el_lit E (1 / 1000000)) v) \<and>
             RMSNorm_call E ph m ps x =
               (case jnp_multiply E x' (lax_rsqrt E a) of
                  Inl e \<Rightarrow> Inl e
                | Inr n \<Rightarrow> scale_step E ph m ps x' n)"
proof -
  from guard_step [OF rp fl real, of m] obtain x' where
    g: "(if guard_against_excess_precision m then reduce_precision E x else Inr x) = Inr x'"
    and ty: "dtype x' = dtype x" and sh: "shape x' = shape x"
    and len: "length (data x') = length (data x)"
    and real': "\<forall>v \<in> set (data x'). \<not> el_is_nan E v"
    by blast
  have wf': "wf_tensor x'" using wf sh len by (simp add: wf_tensor_def)
  have rank': "shape x' \<noteq> []" and nonempty': "last (shape x') \<noteq> 0" and fl': "is_floating (dtype x')"
    using rank nonempty fl sh ty by simp_all
  from rsqrt_operand_bound_aux [OF sq mean add wf' rank' nonempty' fl' real'] obtain a where
    a: "rsqrt_operand E x' = Inr a"
    and bound: "\<forall>v \<in> set (data a). el_le E (el_lit E (1 / 1000000)) v"
    by blast
  have call: "RMSNorm_call E ph m ps x =
               (case jnp_multiply E x' (lax_rsqrt E a) of
                  Inl e \<Rightarrow> Inl e
                | Inr n \<Rightarrow> scale_step E ph m ps x' n)"
    by (simp only: RMSNorm_call_steps g a sum.case)
  from g a bound call show ?thesis by blast
qed

theorem rsqrt_operand_bounded_witness:
  "wf_tensor bf16_row \<and> shape bf16_row \<noteq> [] \<and> last (shape bf16_row) \<noteq> 0 \<and>
   is_floating (dtype bf16_row) \<and>
   list_all (\<lambda>v. \<not> el_is_nan xr_engine v) (data bf16_row) \<and>
   guard_against_excess_precision (sample_norm\<lparr>guard_against_excess_precision := True\<rparr>) \<and>
   (\<exists>x' a. reduce_precision xr_engine bf16_row = Inr x' \<and>
        rsqrt_operand xr_engine x' = Inr a \<and>
        list_all (el_le xr_engine (el_lit xr_engine (1 / 1000000))) (data a) \<and>
        data a = [Fin (25 / 2 + 1 / 1000000)] \<and>
        RMSNorm_call xr_engine Initializing (sample_norm\<lparr>guard_against_excess_precision := True\<rparr>)
            Map.empty bf16_row =
          (case jnp_multiply xr_engine x' (lax_rsqrt xr_engine a) of
             Inl e \<Rightarrow> Inl e
           | Inr n \<Rightarrow> scale_step xr_engine Initializing
                        (sample_norm\<lparr>guard_against_excess_precision := True\<rparr>) Map.empty x' n))"
proof -
  have sq: "\<forall>d v. is_floating d \<and> \<not> el_is_nan xr_engine v
              \<longrightarrow> el_le xr_engine (el_lit xr_engine 0) (el_square xr_engine d v)"
    by (simp add: xr_engine_def xr_square_floating_nonneg)
  have mean: "\<forall>vs. vs \<noteq> [] \<and> (\<forall>v \<in> set vs. el_le xr_engine (el_lit xr_engine 0) v)
                 \<longrightarrow> el_le xr_engine (el_lit xr_engine 0) (el_mean xr_engine vs)"
    by (simp add: xr_engine_def xr_mean_nonneg)
  have add: "\<forall>v. el_le xr_engine (el_lit xr_engine 0) v
                 \<longrightarrow> el_le xr_engine (el_lit xr_engine (1 / 1000000))
                       (el_add xr_engine v (el_lit xr_engine (1 / 1000000)))"
    by (simp add: xr_engine_def xr_add_eps)
  have rp: "\<forall>ne nm v. \<not> el_is_nan xr_engine v
              \<longrightarrow> \<not> el_is_nan xr_engine (el_reduce_precision xr_engine ne nm v)"
    by (simp add: xr_engine_def xr_reduce_precision_not_nan)
  have wf: "wf_tensor bf16_row" by (simp add: wf_tensor_def bf16_row_def)
  have rank: "shape bf16_row \<noteq> []" by (simp add: bf16_row_def)
  have nonempty: "last (shape bf16_row) \<noteq> 0" by (simp add: bf16_row_def)
  have fl: "is_floating (dtype bf16_row)" by (simp add: bf16_row_def)
  have real: "\<forall>v \<in> set (data bf16_row). \<not> el_is_nan xr_engine v"
    by (simp add: bf16_row_def xr_engine_def)
  have val: "map_sum id data (rsqrt_operand xr_engine bf16_row) = Inr [Fin (25 / 2 + 1 / 1000000)]"
    by (simp add: bf16_row_def xr_eval eval_nat_numeral)
  from rsqrt_operand_bounded [OF sq mean add rp wf rank nonempty fl real,
      of "sample_norm\<lparr>guard_against_excess_precision := True\<rparr>" Initializing Map.empty]
    wf rank nonempty fl real val
  show ?thesis by (auto simp: list_all_iff reduce_precision_bf16_row)
qed

subsection \<open>reduce\_precision\<close>

text \<open>
  C7. \<open>reduce_precision\<close> fails exactly on an array whose declared type is not a
  floating type; on a floating array it returns an array of the same declared type,
  the same shape and the same number of elements. It is a function of its argument
  alone: it reads no parameter store and returns nothing else.
\<close>

theorem reduce_precision_float_only:
  "((\<exists>e. reduce_precision E x = Inl e) \<longleftrightarrow> \<not> is_floating (dtype x)) \<and>
   (is_floating (dtype x) \<longrightarrow>
      (\<exists>y. reduce_precision E x = Inr y \<and> dtype y = dtype x \<and> shape y = shape x \<and>
           length (data y) = length (data x)))"
  by (cases "dtype x") (simp_all add: reduce_precision_def lax_reduce_precision_def map_tensor_def)

theorem reduce_precision_float_only_witness:
  "is_floating (dtype sample_input) \<and>
   (\<exists>y. reduce_precision xr_engine sample_input = Inr y \<and> dtype y = Float32 \<and> shape y = [2, 3] \<and>
        length (data y) = 6)"
  using reduce_precision_float_only [of xr_engine sample_input]
  by (auto simp: sample_input_def)
text \<open>
  C5. \<open>reduce_precision\<close> is idempotent on floating arrays: the first call keeps the
  declared type, so the second call rounds to the same exponent and mantissa widths,
  and every element of the first result is a value of that format (or an infinity or
  NaN), which rounding leaves as it is. The rounding is the one of the format: to the
  nearest value, ties to even, with gradual underflow and overflow to infinity.
\<close>

theorem reduce_precision_idempotent:
  assumes "is_floating (dtype x)"
  shows "\<exists>y. reduce_precision xr_engine x = Inr y \<and> reduce_precision xr_engine y = Inr y"
  using assms
  by (cases "dtype x")
     (simp_all add: reduce_precision_def lax_reduce_precision_def map_tensor_def xr_engine_def
        xr_reduce_precision_idem)

theorem reduce_precision_idempotent_witness:
  "is_floating (dtype bf16_row) \<and>
   (\<exists>y. reduce_precision xr_engine bf16_row = Inr y \<and> reduce_precision xr_engine y = Inr y \<and>
        y = bf16_row)"
proof -
  have fl: "is_floating (dtype bf16_row)" by (simp add: bf16_row_def)
  from reduce_precision_idempotent [OF fl] fl reduce_precision_bf16_row
  show ?thesis by auto
qed

subsection \<open>Einsum\<close>

text \<open>
  C9. On a call whose parameter lookup gives the weight \<open>w\<close>, the contraction
  receives \<open>w\<close> with every element multiplied by the configured multiplier when that
  is neither \<^verbatim>\<open>None\<close> nor zero, and \<open>w\<close> itself otherwise. The stored parameter stays
  the unmultiplied \<open>w\<close>, so the next call multiplies again and gives the same result.
\<close>

theorem Einsum_call_scales_weight:
  assumes "param ph ps (weight_name m) (initializer m) (es_shape m) (Passed (es_dtype m)) = Inr (w, ps')"
  shows "Einsum_call E ph m ps eqn x =
           map_sum id (\<lambda>y. (y, ps'))
             (jnp_einsum E eqn x
                (if w_scale m \<noteq> None \<and> w_scale m \<noteq> Some 0
                 then mul_scalar E w (the (w_scale m)) else w))
         \<and> (\<forall>c. data (mul_scalar E w c) = map (\<lambda>v. el_mul E v (el_lit E c)) (data w))
         \<and> ps' (weight_name m) = Some w
         \<and> Einsum_call E ph m ps' eqn x = Einsum_call E ph m ps eqn x"
proof -
  have dt: "(case es_dtype m of Some d \<Rightarrow> Some d | None \<Rightarrow> None) = es_dtype m"
    by (cases "es_dtype m") simp_all
  have tr: "truthy (w_scale m) = (w_scale m \<noteq> None \<and> w_scale m \<noteq> Some 0)"
    by (cases "w_scale m") simp_all
  have stored: "ps' (weight_name m) = Some w"
    using assms by (auto simp: param_def split: option.splits if_splits phase.splits)
  have again: "param ph ps' (weight_name m) (initializer m) (es_shape m) (Passed (es_dtype m)) = Inr (w, ps')"
    using assms by (auto simp: param_def split: option.splits if_splits phase.splits)
  have first: "Einsum_call E ph m ps eqn x =
           map_sum id (\<lambda>y. (y, ps'))
             (jnp_einsum E eqn x
                (if w_scale m \<noteq> None \<and> w_scale m \<noteq> Some 0
                 then mul_scalar E w (the (w_scale m)) else w))"
    using assms by (simp add: Einsum_call_def dt tr split: sum.splits)
  have second: "Einsum_call E ph m ps' eqn x = Einsum_call E ph m ps eqn x"
    using assms again by (simp add: Einsum_call_def dt)
  show ?thesis
    using first stored second by (simp add: mul_scalar_def map_tensor_def)
qed
theorem Einsum_call_scales_weight_witness:
  "param Applying stored_weight (weight_name sample_einsum) (initializer sample_einsum)
      (es_shape sample_einsum) (Passed (es_dtype sample_einsum))
     = Inr (sample_weight, stored_weight) \<and>
   w_scale sample_einsum = Some 2 \<and>
   mul_scalar xr_engine sample_weight 2 = \<lparr>dtype = Float32, shape = [1], data = [Fin 6]\<rparr> \<and>
   Einsum_call xr_engine Applying sample_einsum stored_weight ''i,i->'' sample_vector
     = Inr (\<lparr>dtype = Float32, shape = [], data = [Fin 12]\<rparr>, stored_weight) \<and>
   Einsum_call xr_engine Applying (sample_einsum\<lparr>w_scale := None\<rparr>) stored_weight ''i,i->'' sample_vector
     = Inr (\<lparr>dtype = Float32, shape = [], data = [Fin 6]\<rparr>, stored_weight)"
proof -
  have p: "param Applying stored_weight (weight_name sample_einsum) (initializer sample_einsum)
      (es_shape sample_einsum) (Passed (es_dtype sample_einsum))
     = Inr (sample_weight, stored_weight)"
    by (simp add: param_def sample_einsum_def stored_weight_def sample_weight_def zeros_init_def)
  have p': "param Applying stored_weight (weight_name (sample_einsum\<lparr>w_scale := None\<rparr>))
      (initializer (sample_einsum\<lparr>w_scale := None\<rparr>))
      (es_shape (sample_einsum\<lparr>w_scale := None\<rparr>)) (Passed (es_dtype (sample_einsum\<lparr>w_scale := None\<rparr>)))
     = Inr (sample_weight, stored_weight)"
    using p by simp
  have s: "w_scale sample_einsum = Some 2" by (simp add: sample_einsum_def)
  have m: "mul_scalar xr_engine sample_weight 2 = \<lparr>dtype = Float32, shape = [1], data = [Fin 6]\<rparr>"
    by (simp add: mul_scalar_def map_tensor_def sample_weight_def xr_engine_def)
  have e1: "jnp_einsum xr_engine ''i,i->'' sample_vector \<lparr>dtype = Float32, shape = [1], data = [Fin 6]\<rparr>
              = Inr \<lparr>dtype = Float32, shape = [], data = [Fin 12]\<rparr>"
    by (simp add: xr_engine_def inner_einsum_def sample_vector_def jax_promote_types_def)
  have e2: "jnp_einsum xr_engine ''i,i->'' sample_vector sample_weight
              = Inr \<lparr>dtype = Float32, shape = [], data = [Fin 6]\<rparr>"
    by (simp add: xr_engine_def inner_einsum_def sample_vector_def sample_weight_def jax_promote_types_def)
  show ?thesis
    using Einsum_call_scales_weight [OF p, of xr_engine "''i,i->''" sample_vector]
      Einsum_call_scales_weight [OF p', of xr_engine "''i,i->''" sample_vector]
      p s
    by (simp add: m e1 e2 del: One_nat_def)
qed

text \<open>
  C6, as stated, fails for the multiplier 0: Python takes \<open>0.0\<close> as false, the weight
  is left unmultiplied, and the result is that of the plain weight, not that result
  times zero.
\<close>

theorem Einsum_call_zero_scale_counterexample:
  "map_sum id (data \<circ> fst)
     (Einsum_call xr_engine Initializing (sample_einsum\<lparr>w_scale := Some 0\<rparr>) stored_weight ''i,i->'' sample_vector)
     = Inr [Fin 6] \<and>
   map_sum id (\<lambda>(y, ps'). data (mul_scalar xr_engine y 0))
     (Einsum_call xr_engine Initializing (sample_einsum\<lparr>w_scale := Some 1\<rparr>) stored_weight ''i,i->'' sample_vector)
     = Inr [Fin 0]"
  by (simp add: sample_einsum_def stored_weight_def sample_weight_def sample_vector_def xr_eval)

text \<open>
  Nor is multiplying the result the same as multiplying the weight when the multiplier
  is not zero: in \<open>float32\<close>, for the input and the weight \<open>1 + 2^-23\<close> and the
  multiplier 3, the call gives \<open>3145729 / 1048576\<close>, and the result for the multiplier
  1 times 3 is \<open>12582915 / 4194304\<close>. The two roundings do not commute.
\<close>

lemma Einsum_call_rounding_sample:
  "map_sum id (data \<circ> fst)
     (Einsum_call f32_engine Applying (sample_einsum\<lparr>w_scale := Some 3\<rparr>) f32_weight ''i,i->'' f32_vector)
     = Inr [Fin (3145729 / 1048576)] \<and>
   map_sum id (\<lambda>(y, ps'). data (mul_scalar f32_engine y 3))
     (Einsum_call f32_engine Applying (sample_einsum\<lparr>w_scale := Some 1\<rparr>) f32_weight ''i,i->'' f32_vector)
     = Inr [Fin (12582915 / 4194304)]"
  by (simp add: f32_eval f32_values)

text \<open>
  C6, amended. The multiplier acts on the weight, before the contraction: for every
  equation, input and non-zero multiplier \<open>c\<close>, a call with the multiplier \<open>c\<close> on the
  weight \<open>w\<close> returns the contraction of the input with \<open>w * c\<close>, which is what a call
  with the multiplier 1 returns on the stored weight \<open>w * c\<close>. With the multiplier 0 the
  call is the call with no multiplier. The laws used: a product times 1 is that
  product, and a Python float leaves the type of a float array as it is.
\<close>

theorem Einsum_call_scale_on_weight:
  assumes nz: "c \<noteq> 0"
    and one: "\<forall>v. el_mul E (el_mul E v (el_lit E c)) (el_lit E 1) = el_mul E v (el_lit E c)"
    and wk: "\<forall>d. weak_float_type E (weak_float_type E d) = weak_float_type E d"
    and p: "param ph ps (weight_name m) (initializer m) (es_shape m) (Passed (es_dtype m)) = Inr (w, ps')"
  shows "map_sum id fst (Einsum_call E ph (m\<lparr>w_scale := Some c\<rparr>) ps eqn x)
           = jnp_einsum E eqn x (mul_scalar E w c) \<and>
         map_sum id fst (Einsum_call E ph (m\<lparr>w_scale := Some 1\<rparr>)
                           (ps'(weight_name m \<mapsto> mul_scalar E w c)) eqn x)
           = jnp_einsum E eqn x (mul_scalar E w c) \<and>
         Einsum_call E ph (m\<lparr>w_scale := Some 0\<rparr>) ps eqn x
           = Einsum_call E ph (m\<lparr>w_scale := None\<rparr>) ps eqn x"
proof -
  have same: "mul_scalar E (mul_scalar E w c) 1 = mul_scalar E w c"
    using one wk by (simp add: mul_scalar_def map_tensor_def)
  have sh: "shape (mul_scalar E w c) = shape (initializer m (es_shape m) (Passed (es_dtype m)))"
    using param_shape [OF p] by (simp add: mul_scalar_def map_tensor_def)
  have p1: "param ph (ps'(weight_name m \<mapsto> mul_scalar E w c)) (weight_name m) (initializer m)
              (es_shape m) (Passed (es_dtype m))
            = Inr (mul_scalar E w c, ps'(weight_name m \<mapsto> mul_scalar E w c))"
    using sh by (simp add: param_def)
  have a: "map_sum id fst (Einsum_call E ph (m\<lparr>w_scale := Some c\<rparr>) ps eqn x)
           = jnp_einsum E eqn x (mul_scalar E w c)"
    using p nz by (simp add: Einsum_call_unfold sum.map_comp comp_def sum.map_ident)
  have b: "map_sum id fst (Einsum_call E ph (m\<lparr>w_scale := Some 1\<rparr>)
                           (ps'(weight_name m \<mapsto> mul_scalar E w c)) eqn x)
           = jnp_einsum E eqn x (mul_scalar E w c)"
    using p1 by (simp add: Einsum_call_unfold same sum.map_comp comp_def sum.map_ident)
  have c: "Einsum_call E ph (m\<lparr>w_scale := Some 0\<rparr>) ps eqn x
           = Einsum_call E ph (m\<lparr>w_scale := None\<rparr>) ps eqn x"
    by (simp add: Einsum_call_unfold split: sum.splits)
  from a b c show ?thesis by simp
qed

theorem Einsum_call_scale_on_weight_witness:
  "(3::real) \<noteq> 0 \<and>
   (\<forall>v. el_mul f32_engine (el_mul f32_engine v (el_lit f32_engine 3)) (el_lit f32_engine 1)
          = el_mul f32_engine v (el_lit f32_engine 3)) \<and>
   (\<forall>d. weak_float_type f32_engine (weak_float_type f32_engine d) = weak_float_type f32_engine d) \<and>
   param Applying f32_weight (weight_name sample_einsum) (initializer sample_einsum)
      (es_shape sample_einsum) (Passed (es_dtype sample_einsum)) = Inr (f32_vector, f32_weight) \<and>
   mul_scalar f32_engine f32_vector 3 = \<lparr>dtype = Float32, shape = [1], data = [Fin (6291457 / 2097152)]\<rparr> \<and>
   map_sum id fst (Einsum_call f32_engine Applying (sample_einsum\<lparr>w_scale := Some 3\<rparr>) f32_weight
                     ''i,i->'' f32_vector)
     = Inr \<lparr>dtype = Float32, shape = [], data = [Fin (3145729 / 1048576)]\<rparr> \<and>
   map_sum id fst (Einsum_call f32_engine Applying (sample_einsum\<lparr>w_scale := Some 1\<rparr>)
                     (f32_weight(''w'' \<mapsto> mul_scalar f32_engine f32_vector 3)) ''i,i->'' f32_vector)
     = Inr \<lparr>dtype = Float32, shape = [], data = [Fin (3145729 / 1048576)]\<rparr>"
proof -
  have nz: "(3::real) \<noteq> 0" by simp
  have one: "\<forall>v. el_mul f32_engine (el_mul f32_engine v (el_lit f32_engine 3)) (el_lit f32_engine 1)
          = el_mul f32_engine v (el_lit f32_engine 3)"
    by (simp add: f32_engine_def f32_values xr_mul_one f32_idem)
  have wk: "\<forall>d. weak_float_type f32_engine (weak_float_type f32_engine d) = weak_float_type f32_engine d"
    by (simp add: f32_engine_def to_inexact_idem)
  have p: "param Applying f32_weight (weight_name sample_einsum) (initializer sample_einsum)
      (es_shape sample_einsum) (Passed (es_dtype sample_einsum)) = Inr (f32_vector, f32_weight)"
    by (simp add: param_def sample_einsum_def f32_weight_def f32_vector_def zeros_init_def)
  have w: "mul_scalar f32_engine f32_vector 3
             = \<lparr>dtype = Float32, shape = [1], data = [Fin (6291457 / 2097152)]\<rparr>"
    by (simp add: mul_scalar_def map_tensor_def f32_vector_def f32_engine_def f32_values)
  have e: "jnp_einsum f32_engine ''i,i->'' f32_vector
             \<lparr>dtype = Float32, shape = [1], data = [Fin (6291457 / 2097152)]\<rparr>
           = Inr \<lparr>dtype = Float32, shape = [], data = [Fin (3145729 / 1048576)]\<rparr>"
    by (simp add: f32_engine_def f32_inner_einsum_def f32_vector_def jax_promote_types_def f32_values)
  have n: "weight_name sample_einsum = ''w''" by (simp add: sample_einsum_def)
  show ?thesis
    using Einsum_call_scale_on_weight [OF nz one wk p, of "''i,i->''" f32_vector] nz one wk p
    by (simp add: w e n del: One_nat_def)
qed

text \<open>
  C8, as stated, fails: with no element type configured, a weight created for an input
  of type \<open>bfloat16\<close> by the zeros initializer has the initializer's default type
  \<open>float32\<close>, not the input's.
\<close>

theorem Einsum_call_default_dtype_counterexample:
  "map_sum id (\<lambda>(y, ps'). map_option dtype (ps' ''w''))
     (Einsum_call xr_engine Initializing (sample_einsum\<lparr>es_dtype := None\<rparr>) Map.empty ''i,i->'' bf16_vector)
     = Inr (Some Float32) \<and>
   dtype bf16_vector = BFloat16"
  by (simp add: sample_einsum_def bf16_vector_def xr_eval)

text \<open>
  C8, amended. With no element type configured and no stored weight, while the
  parameters are initialised, the weight is what the initializer returns for the
  configured shape and the type \<^verbatim>\<open>None\<close>: it does not depend on the input. The
  contraction receives the input as it is and this weight, multiplied by the multiplier
  when one is configured and is not zero. (With given parameters, a call with no
  stored weight fails.)
\<close>

theorem Einsum_call_default_dtype:
  assumes "ps (weight_name m) = None" and "es_dtype m = None"
  shows "Einsum_call E Initializing m ps eqn x =
           map_sum id (\<lambda>y. (y, ps(weight_name m \<mapsto> initializer m (es_shape m) (Passed None))))
             (jnp_einsum E eqn x
                (if truthy (w_scale m)
                 then mul_scalar E (initializer m (es_shape m) (Passed None)) (the (w_scale m))
                 else initializer m (es_shape m) (Passed None)))"
  using assms by (simp add: Einsum_call_unfold param_def)

theorem Einsum_call_default_dtype_witness:
  "Map.empty (weight_name sample_einsum) = None \<and> es_dtype sample_einsum = None \<and>
   Einsum_call xr_engine Initializing sample_einsum Map.empty ''i,i->'' bf16_vector =
     Inr (\<lparr>dtype = Float32, shape = [], data = [Fin 0]\<rparr>,
          [''w'' \<mapsto> \<lparr>dtype = Float32, shape = [1], data = [Fin 0]\<rparr>])"
proof -
  have a: "Map.empty (weight_name sample_einsum) = None" by simp
  have b: "es_dtype sample_einsum = None" by (simp add: sample_einsum_def)
  show ?thesis
    using Einsum_call_default_dtype [OF a b, of xr_engine "''i,i->''" bf16_vector] a b
    by (simp add: sample_einsum_def bf16_vector_def zeros_init_def mul_scalar_def map_tensor_def
        xr_engine_def inner_einsum_def jax_promote_types_def)
qed

lemma Einsum_call_missing_weight:
  "ps (weight_name m) = None \<Longrightarrow> Einsum_call E Applying m ps eqn x = Inl ParamNotFound"
  by (simp add: Einsum_call_unfold param_def)

end
